theory Spec2Isabelle
  imports Main "HOL-Library.Sublist"
begin

section \<open>Strings\<close>

text \<open>
  JavaScript strings are modelled as \<^typ>\<open>string\<close>: a list of code units, here the code
  units below 256. The string methods the two source files call are written out as
  recursive functions.
\<close>

text \<open>\<open>s.startsWith(p)\<close>: the code units of \<open>p\<close> stand at the start of \<open>s\<close>.\<close>

fun startsWith :: "string \<Rightarrow> string \<Rightarrow> bool" where
  "startsWith s [] = True"
| "startsWith [] (p # ps) = False"
| "startsWith (c # cs) (p # ps) = (c = p \<and> startsWith cs ps)"

text \<open>\<open>s.includes(p)\<close>: \<open>p\<close> occurs somewhere in \<open>s\<close>.\<close>

fun includes_str :: "string \<Rightarrow> string \<Rightarrow> bool" where
  "includes_str [] p = (p = [])"
| "includes_str (c # cs) p = (startsWith (c # cs) p \<or> includes_str cs p)"

text \<open>
  \<open>s.replace(p, '')\<close> with a string pattern: the first occurrence of \<open>p\<close> in \<open>s\<close> is
  removed, and \<open>s\<close> is returned as it is when \<open>p\<close> does not occur.
\<close>

fun replace_first :: "string \<Rightarrow> string \<Rightarrow> string" where
  "replace_first [] p = []"
| "replace_first (c # cs) p =
     (if startsWith (c # cs) p then drop (length p) (c # cs) else c # replace_first cs p)"

text \<open>
  \<open>s.split(sep)\<close> for a separator of one code unit (\<open>'\n'\<close>, \<open>'/'\<close>, \<open>'\\'\<close>): the
  string is walked from the left, \<open>acc\<close> holds the code units of the current part in
  reverse, and a separator closes the part. The result is never empty:
  \<open>''.split('\n')\<close> is \<open>['']\<close>.
\<close>

fun splitFrom :: "char \<Rightarrow> string \<Rightarrow> string \<Rightarrow> string list" where
  "splitFrom sep acc [] = [rev acc]"
| "splitFrom sep acc (c # cs) =
     (if c = sep then rev acc # splitFrom sep [] cs else splitFrom sep (c # acc) cs)"

definition split :: "char \<Rightarrow> string \<Rightarrow> string list" where
  "split sep s = splitFrom sep [] s"

text \<open>
  \<open>s.trim()\<close> removes white space and line terminators from both ends. Among the code
  units below 256 these are TAB, LF, VT, FF, CR, SP and NBSP.
\<close>

definition isWhiteSpace :: "char \<Rightarrow> bool" where
  "isWhiteSpace c = (c \<in> set [CHR 0x09, CHR 0x0A, CHR 0x0B, CHR 0x0C, CHR 0x0D, CHR 0x20, CHR 0xA0])"

definition trim :: "string \<Rightarrow> string" where
  "trim s = rev (dropWhile isWhiteSpace (rev (dropWhile isWhiteSpace s)))"

definition LF :: char where
  "LF = CHR 0x0A"

definition CR :: char where
  "CR = CHR 0x0D"

section \<open>The boundary to git, the file system and the package library\<close>

text \<open>
  A workspace is a package object of the package-discovery library: a directory, and
  the accessors \<open>getName()\<close> and \<open>getVersion()\<close>.
\<close>

record workspace =
  dir :: string
  getName :: string
  getVersion :: string

text \<open>
  A git process either exits with an exit code, having written its standard output, or
  cannot be run at all. \<open>execa('git', args)\<close> resolves when the exit code is 0, and
  rejects otherwise, with an error whose \<open>code\<close> is the exit code of the process, or the
  name of the system error when the process could not be run.
\<close>

datatype process = Exited nat string | NotRun string

datatype err_code = ExitCode nat | SysCode string

text \<open>
  The errors a call can end with: \<open>Error(message)\<close> thrown by the code itself, the
  rejection of a git command, a \<open>TypeError\<close> of the runtime, and a failure of one of
  the libraries behind the boundary.
\<close>

datatype error = JsError string | ExecaError err_code | TypeError | LibraryError string

text \<open>
  Everything the code reads from outside: the outcome of each git command line, the
  working directory, \<open>path.resolve\<close>, the platform, the packages that
  \<open>Project.getPackages\<close> and \<open>filterPackages\<close> give for filter options of type \<open>'o\<close>, and
  \<open>analyzeCommitsSinceRef\<close>, which \<open>workspaces.ts\<close> imports and whose body is not part of
  the two source files (it returns the release type label, \<open>None\<close> when it is not a
  string, and like every call of the git layer the command lines it has run).
\<close>

record 'o world =
  git :: "string list \<Rightarrow> process"
  cwd :: string
  path_resolve :: "string \<Rightarrow> string"
  win32 :: bool
  packages :: "'o \<Rightarrow> error + workspace list"
  analyzeCommitsSinceRef :: "string \<Rightarrow> string \<Rightarrow> (error + string option) \<times> string list list"

text \<open>
  A call of the git layer yields its result, or the error it throws, and the list of the
  git command lines it has run.
\<close>

type_synonym 'a io = "(error + 'a) \<times> string list list"

definition return_io :: "'a \<Rightarrow> 'a io" where
  "return_io x = (Inr x, [])"

definition throw_io :: "error \<Rightarrow> 'a io" where
  "throw_io e = (Inl e, [])"

definition bind_io :: "'a io \<Rightarrow> ('a \<Rightarrow> 'b io) \<Rightarrow> 'b io" where
  "bind_io m f =
     (case m of
        (Inl e, t) \<Rightarrow> (Inl e, t)
      | (Inr x, t) \<Rightarrow> (case f x of (r, t') \<Rightarrow> (r, t @ t')))"

text \<open>
  \<open>execa\<close> hands on the standard output without its final newline: a line feed at the
  end is cut off, and then a carriage return at the end.
\<close>

definition stripFinalNewline :: "string \<Rightarrow> string" where
  "stripFinalNewline x =
     (let y = (if x \<noteq> [] \<and> last x = LF then butlast x else x)
      in if y \<noteq> [] \<and> last y = CR then butlast y else y)"

definition execa :: "'o world \<Rightarrow> string list \<Rightarrow> string io" where
  "execa w args =
     (case git w args of
        Exited n out \<Rightarrow>
          if n = 0 then (Inr (stripFinalNewline out), [args])
          else (Inl (ExecaError (ExitCode n)), [args])
      | NotRun name \<Rightarrow> (Inl (ExecaError (SysCode name)), [args]))"

section \<open>git.ts\<close>

text \<open>
  A ref argument is a string, \<open>null\<close> or \<open>undefined\<close> (\<open>getRef\<close> returns \<open>null\<close>,
  \<open>pLocate\<close> returns \<open>undefined\<close>). As an argument of a command line \<open>undefined\<close> is
  written as the text \<open>undefined\<close>.
\<close>

datatype jsref = Null | Undefined | Str string

fun argOf :: "jsref \<Rightarrow> string" where
  "argOf (Str s) = s"
| "argOf Undefined = ''undefined''"
| "argOf Null = ''null''"

definition getRef :: "'o world \<Rightarrow> string \<Rightarrow> string option io" where
  "getRef w name =
     (case execa w [''rev-parse'', name] of
        (Inr stdout, t) \<Rightarrow> (Inr (Some (hd (split LF (trim stdout)))), t)
      | (Inl e, t) \<Rightarrow> (Inr None, t))"

definition getMasterRef :: "'o world \<Rightarrow> string option io" where
  "getMasterRef w = getRef w ''master''"

abbreviation MissingRefError :: error where
  "MissingRefError \<equiv> JsError ''Current ref is undefined''"

definition getChangedFilesSinceRef :: "'o world \<Rightarrow> jsref \<Rightarrow> bool \<Rightarrow> string list io" where
  "getChangedFilesSinceRef w ref fullPath =
     (if ref = Null then throw_io MissingRefError
      else
        bind_io (execa w [''merge-base'', argOf ref, ''HEAD'']) (\<lambda>stdout.
          let divergedAt = trim stdout in
          bind_io (execa w [''diff'', ''--name-only'', divergedAt]) (\<lambda>stdout'.
            let files = split LF (trim stdout') in
            if \<not> fullPath then return_io files
            else return_io (map (path_resolve w) files))))"

definition getFirstCommitByWorkspaceFolder :: "'o world \<Rightarrow> string \<Rightarrow> string io" where
  "getFirstCommitByWorkspaceFolder w workspaceFolder =
     bind_io (execa w [''log'', ''--reverse'', ''--pretty=format:%H'', ''--'', workspaceFolder])
       (\<lambda>stdout. return_io (trim (hd (split LF stdout))))"

definition getTags :: "'o world \<Rightarrow> bool \<Rightarrow> string list io" where
  "getTags w isRevert =
     bind_io (execa w ([''tag''] @ (if isRevert then [''--sort=-refname''] else [])))
       (\<lambda>stdout. return_io (map trim (split LF stdout)))"

definition isRefInHistory :: "'o world \<Rightarrow> string \<Rightarrow> bool io" where
  "isRefInHistory w ref =
     (case execa w [''merge-base'', ''--is-ancestor'', ref, ''HEAD''] of
        (Inr stdout, t) \<Rightarrow> (Inr True, t)
      | (Inl e, t) \<Rightarrow> (if e = ExecaError (ExitCode 1) then (Inr False, t) else (Inl e, t)))"

section \<open>The libraries workspaces.ts calls\<close>

subsection \<open>p-locate\<close>

text \<open>
  \<open>pLocate(xs, tester, {preserveOrder: true})\<close> starts the tester on every element, then
  looks at the outcomes in the order of the list: the first element whose tester gave
  \<open>true\<close> is the result, a tester that threw before that makes the call throw, and the
  result is \<open>undefined\<close> (\<open>None\<close>) when every tester gave \<open>false\<close>. All the testers have
  run in each case.
\<close>

fun locate :: "('a \<times> (error + bool)) list \<Rightarrow> error + 'a option" where
  "locate [] = Inr None"
| "locate ((x, r) # rest) =
     (case r of Inl e \<Rightarrow> Inl e | Inr b \<Rightarrow> if b then Inr (Some x) else locate rest)"

definition pLocate :: "'a list \<Rightarrow> ('a \<Rightarrow> bool io) \<Rightarrow> 'a option io" where
  "pLocate xs tester =
     (locate (map (\<lambda>x. (x, fst (tester x))) xs), concat (map (\<lambda>x. snd (tester x)) xs))"

subsection \<open>Promise.all\<close>

text \<open>
  \<open>Promise.all(promises)\<close> resolves with the values in the order of the list when every
  promise resolves, and rejects with the reason of the promise that rejects first in time
  otherwise: one of the reasons listed under \<open>Inl\<close>. Every promise runs to its end; the
  command lines are listed in the order of the list, not of time.
\<close>

definition promise_all :: "'a io list \<Rightarrow> (error list + 'a list) \<times> string list list" where
  "promise_all ps =
     (let reasons = concat (map (\<lambda>p. case fst p of Inl e \<Rightarrow> [e] | Inr x \<Rightarrow> []) ps);
          values = concat (map (\<lambda>p. case fst p of Inl e \<Rightarrow> [] | Inr x \<Rightarrow> [x]) ps)
      in (if reasons = [] then Inr values else Inl reasons, concat (map snd ps)))"

subsection \<open>semver\<close>

text \<open>
  \<open>semver.inc(version, release)\<close> parses the version (\<open>new SemVer(version)\<close>, strict),
  increments it and returns the new version string, or \<open>null\<close> when the version does not
  parse or the release type is not one it knows.
\<close>

datatype pre_id = PNum nat | PStr string

record semver =
  major :: nat
  minor :: nat
  patch :: nat
  prerelease :: "pre_id list"

definition MAX_LENGTH :: nat where
  "MAX_LENGTH = 256"

definition MAX_SAFE_INTEGER :: nat where
  "MAX_SAFE_INTEGER = 9007199254740991"

definition isDigit :: "char \<Rightarrow> bool" where
  "isDigit c = (c \<in> set ''0123456789'')"

definition isLetter :: "char \<Rightarrow> bool" where
  "isLetter c = (c \<in> set ''abcdefghijklmnopqrstuvwxyzABCDEFGHIJKLMNOPQRSTUVWXYZ'')"

definition isIdChar :: "char \<Rightarrow> bool" where
  "isIdChar c = (isDigit c \<or> isLetter c \<or> c = CHR ''-'')"

text \<open>
  The value of a digit is its place in \<open>0123456789\<close>; \<open>+s\<close> is taken of strings of
  digits only.
\<close>

definition digitValue :: "char \<Rightarrow> nat" where
  "digitValue c = length (takeWhile (\<lambda>d. d \<noteq> c) ''0123456789'')"

definition toNumber :: "string \<Rightarrow> nat" where
  "toNumber s = foldl (\<lambda>n c. 10 * n + digitValue c) 0 s"

text \<open>\<open>String(n)\<close> for a natural number.\<close>

fun toString :: "nat \<Rightarrow> string" where
  "toString n =
     (if n < 10 then [''0123456789'' ! n]
      else toString (n div 10) @ [''0123456789'' ! (n mod 10)])"

text \<open>
  The identifiers of the version grammar: \<open>0|[1-9]\d*\<close>, \<open>\d*[a-zA-Z-][a-zA-Z0-9-]*\<close>
  and \<open>[0-9A-Za-z-]+\<close>.
\<close>

definition isNumericIdentifier :: "string \<Rightarrow> bool" where
  "isNumericIdentifier s = (s = ''0'' \<or> (s \<noteq> [] \<and> hd s \<noteq> CHR ''0'' \<and> list_all isDigit s))"

definition isNonNumericIdentifier :: "string \<Rightarrow> bool" where
  "isNonNumericIdentifier s = (list_all isIdChar s \<and> list_ex (\<lambda>c. \<not> isDigit c) s)"

definition isPrereleaseIdentifier :: "string \<Rightarrow> bool" where
  "isPrereleaseIdentifier s = (isNumericIdentifier s \<or> isNonNumericIdentifier s)"

definition isBuildIdentifier :: "string \<Rightarrow> bool" where
  "isBuildIdentifier s = (s \<noteq> [] \<and> list_all isIdChar s)"

text \<open>
  A prerelease identifier of digits only is a number when it is below
  \<open>MAX_SAFE_INTEGER\<close>, and stays a string otherwise.
\<close>

definition toPreId :: "string \<Rightarrow> pre_id" where
  "toPreId s =
     (if list_all isDigit s \<and> s \<noteq> [] \<and> toNumber s < MAX_SAFE_INTEGER then PNum (toNumber s)
      else PStr s)"

text \<open>
  \<open>new SemVer(version)\<close>: the trimmed version must match
  \<open>^v?MAIN(-PRERELEASE)?(\+BUILD)?$\<close>. Neither the main version nor the prerelease part
  holds a \<open>+\<close>, and the main version holds no \<open>-\<close>, so the first \<open>+\<close> starts the build
  part and the first \<open>-\<close> before it starts the prerelease part.
\<close>

definition parseSemVer :: "string \<Rightarrow> semver option" where
  "parseSemVer version =
     (if length version > MAX_LENGTH then None
      else
        let s = trim version;
            s' = (case s of [] \<Rightarrow> s | c # cs \<Rightarrow> if c = CHR ''v'' then cs else s);
            mainPre = takeWhile (\<lambda>c. c \<noteq> CHR ''+'') s';
            build = dropWhile (\<lambda>c. c \<noteq> CHR ''+'') s';
            main = takeWhile (\<lambda>c. c \<noteq> CHR ''-'') mainPre;
            pre = dropWhile (\<lambda>c. c \<noteq> CHR ''-'') mainPre
        in
          if (build = [] \<or> list_all isBuildIdentifier (split CHR ''.'' (tl build))) \<and>
             (pre = [] \<or> list_all isPrereleaseIdentifier (split CHR ''.'' (tl pre)))
          then
            (case split CHR ''.'' main of
               [a, b, c] \<Rightarrow>
                 if isNumericIdentifier a \<and> isNumericIdentifier b \<and> isNumericIdentifier c \<and>
                    toNumber a \<le> MAX_SAFE_INTEGER \<and> toNumber b \<le> MAX_SAFE_INTEGER \<and>
                    toNumber c \<le> MAX_SAFE_INTEGER
                 then Some \<lparr>major = toNumber a, minor = toNumber b, patch = toNumber c,
                        prerelease = (if pre = [] then []
                                      else map toPreId (split CHR ''.'' (tl pre)))\<rparr>
                 else None
             | _ \<Rightarrow> None)
          else None)"

text \<open>\<open>SemVer.format()\<close>: the version string, without the build part.\<close>

fun formatPreId :: "pre_id \<Rightarrow> string" where
  "formatPreId (PNum n) = toString n"
| "formatPreId (PStr s) = s"

fun join :: "string \<Rightarrow> string list \<Rightarrow> string" where
  "join sep [] = []"
| "join sep [x] = x"
| "join sep (x # y # ys) = x @ sep @ join sep (y # ys)"

definition format :: "semver \<Rightarrow> string" where
  "format v =
     toString (major v) @ ''.'' @ toString (minor v) @ ''.'' @ toString (patch v) @
     (if prerelease v \<noteq> [] then ''-'' @ join ''.'' (map formatPreId (prerelease v)) else [])"

text \<open>
  \<open>SemVer.inc('pre')\<close>: an empty prerelease becomes \<open>[0]\<close>; otherwise the last number
  in it is incremented, and \<open>0\<close> is appended when it holds no number. \<open>bumpLast\<close> walks
  the reversed list, as the loop walks down from the last index.
\<close>

fun bumpLast :: "pre_id list \<Rightarrow> pre_id list option" where
  "bumpLast [] = None"
| "bumpLast (PNum n # r) = Some (PNum (n + 1) # r)"
| "bumpLast (PStr s # r) = map_option ((#) (PStr s)) (bumpLast r)"

definition incPre :: "semver \<Rightarrow> semver" where
  "incPre v =
     (if length (prerelease v) = 0 then v\<lparr>prerelease := [PNum 0]\<rparr>
      else
        (case bumpLast (rev (prerelease v)) of
           Some r \<Rightarrow> v\<lparr>prerelease := rev r\<rparr>
         | None \<Rightarrow> v\<lparr>prerelease := prerelease v @ [PNum 0]\<rparr>))"

definition incPatch :: "semver \<Rightarrow> semver" where
  "incPatch v =
     (if length (prerelease v) = 0 then v\<lparr>patch := patch v + 1, prerelease := []\<rparr>
      else v\<lparr>prerelease := []\<rparr>)"

text \<open>\<open>SemVer.inc(release)\<close>; \<open>None\<close> is the thrown \<open>invalid increment argument\<close>.\<close>

definition inc :: "semver \<Rightarrow> string \<Rightarrow> semver option" where
  "inc v release =
     (if release = ''premajor'' then
        Some (incPre (v\<lparr>prerelease := [], patch := 0, minor := 0, major := major v + 1\<rparr>))
      else if release = ''preminor'' then
        Some (incPre (v\<lparr>prerelease := [], patch := 0, minor := minor v + 1\<rparr>))
      else if release = ''prepatch'' then
        Some (incPre (incPatch (v\<lparr>prerelease := []\<rparr>)))
      else if release = ''prerelease'' then
        Some (incPre (if length (prerelease v) = 0 then incPatch v else v))
      else if release = ''major'' then
        Some ((if minor v \<noteq> 0 \<or> patch v \<noteq> 0 \<or> length (prerelease v) = 0
               then v\<lparr>major := major v + 1\<rparr> else v)\<lparr>minor := 0, patch := 0, prerelease := []\<rparr>)
      else if release = ''minor'' then
        Some ((if patch v \<noteq> 0 \<or> length (prerelease v) = 0
               then v\<lparr>minor := minor v + 1\<rparr> else v)\<lparr>patch := 0, prerelease := []\<rparr>)
      else if release = ''patch'' then Some (incPatch v)
      else if release = ''pre'' then Some (incPre v)
      else None)"

definition semver_inc :: "string \<Rightarrow> string option \<Rightarrow> string option" where
  "semver_inc version release =
     (case parseSemVer version of
        None \<Rightarrow> None
      | Some v \<Rightarrow>
          (case release of
             None \<Rightarrow> None
           | Some r \<Rightarrow> (case inc v r of None \<Rightarrow> None | Some v' \<Rightarrow> Some (format v'))))"

section \<open>workspaces.ts\<close>

definition path_sep :: "'o world \<Rightarrow> string" where
  "path_sep w = (if win32 w then [CHR 0x5C] else ''/'')"

definition getWorkspaces :: "'o world \<Rightarrow> 'o \<Rightarrow> workspace list io" where
  "getWorkspaces w opts = (packages w opts, [])"

text \<open>
  \<open>Array.find\<close> is \<^const>\<open>find\<close>: the first element the predicate holds for, \<open>None\<close> for
  \<open>undefined\<close>.
\<close>

definition fileNameToPackage :: "'o world \<Rightarrow> string \<Rightarrow> workspace list \<Rightarrow> workspace option" where
  "fileNameToPackage w fileName allPackages =
     find (\<lambda>pkg. startsWith fileName (dir pkg @ path_sep w)) allPackages"

definition fileExistsInPackage :: "'o world \<Rightarrow> string \<Rightarrow> workspace list \<Rightarrow> bool" where
  "fileExistsInPackage w fileName allPackages = (fileNameToPackage w fileName allPackages \<noteq> None)"

text \<open>\<open>xs.indexOf(x)\<close>: the first index of \<open>x\<close>, or \<open>-1\<close>.\<close>

fun indexOfFrom :: "nat \<Rightarrow> 'a list \<Rightarrow> 'a \<Rightarrow> int" where
  "indexOfFrom i [] x = - 1"
| "indexOfFrom i (y # ys) x = (if y = x then int i else indexOfFrom (Suc i) ys x)"

definition indexOf :: "'a list \<Rightarrow> 'a \<Rightarrow> int" where
  "indexOf xs x = indexOfFrom 0 xs x"

text \<open>\<open>xs.filter((x, idx, arr) => ...)\<close>: the callback also gets the index and the array.\<close>

definition filterIdx :: "('a \<Rightarrow> nat \<Rightarrow> 'a list \<Rightarrow> bool) \<Rightarrow> 'a list \<Rightarrow> 'a list" where
  "filterIdx f xs = map fst (filter (\<lambda>(x, idx). f x idx xs) (zip xs [0..<length xs]))"

text \<open>
  The elements of the returned array are what \<open>fileNameToPackage\<close> gave: a workspace, or
  \<open>undefined\<close> (\<open>None\<close>).
\<close>

definition getWorkspacesChangedSinceRef ::
  "'o world \<Rightarrow> jsref \<Rightarrow> 'o \<Rightarrow> workspace option list io" where
  "getWorkspacesChangedSinceRef w ref opts =
     bind_io (getChangedFilesSinceRef w ref True) (\<lambda>changedFiles.
       bind_io (getWorkspaces w opts) (\<lambda>allPackages.
         return_io
           (filterIdx (\<lambda>pkg idx packages. indexOf packages pkg = int idx)
              (map (\<lambda>fileName. fileNameToPackage w fileName allPackages)
                 (filter (\<lambda>fileName. fileExistsInPackage w fileName allPackages) changedFiles)))))"

text \<open>
  The result object of \<open>getChangesFromLastTagByWorkspaces\<close> is a map from its keys, the
  workspace directories, to lists of file names.
\<close>

definition lastPart :: "'o world \<Rightarrow> string \<Rightarrow> string" where
  "lastPart w change =
     (let parts = split (if win32 w then CHR 0x5C else CHR ''/'') change
      in parts ! (length parts - 1))"

definition getChangesFromLastTagByWorkspaces ::
  "'o world \<Rightarrow> 'o \<Rightarrow> (string \<rightharpoonup> string list) io" where
  "getChangesFromLastTagByWorkspaces w opts =
     bind_io (getTags w True) (\<lambda>tags.
       bind_io (pLocate tags (isRefInHistory w)) (\<lambda>tag.
         bind_io (getChangedFilesSinceRef w (case tag of None \<Rightarrow> Undefined | Some t \<Rightarrow> Str t) True)
           (\<lambda>changedFiles.
             bind_io (getWorkspaces w opts) (\<lambda>allPackages.
               return_io
                 (foldl
                    (\<lambda>result workspace.
                       let changes = filter (\<lambda>changeFilePath.
                             includes_str changeFilePath (dir workspace)) changedFiles
                       in result(dir workspace \<mapsto> map (lastPart w) changes))
                    Map.empty allPackages)))))"

text \<open>
  The reference and the current version of \<open>getNextVersion\<close> (the \<open>if\<close> over
  \<open>tags.length\<close>). With no ancestor among the tags \<open>ref\<close> is \<open>undefined\<close>, and
  \<open>ref.replace\<close> throws a \<open>TypeError\<close>.
\<close>

definition folderNameOf :: "'o world \<Rightarrow> workspace \<Rightarrow> string" where
  "folderNameOf w workspace = replace_first (dir workspace) (cwd w @ path_sep w)"

definition referenceOf :: "'o world \<Rightarrow> string list \<Rightarrow> workspace \<Rightarrow> (string \<times> string) io" where
  "referenceOf w tags workspace =
     (if length tags = 0 then
        bind_io (getFirstCommitByWorkspaceFolder w (folderNameOf w workspace)) (\<lambda>ref.
          return_io (ref, getVersion workspace))
      else
        bind_io (pLocate tags (isRefInHistory w)) (\<lambda>ref.
          case ref of
            None \<Rightarrow> throw_io TypeError
          | Some r \<Rightarrow> return_io (r, replace_first r (getName workspace @ ''-''))))"

text \<open>The result \<open>{[wName]: next}\<close> is the pair of its key and its value.\<close>

definition getNextVersion ::
  "'o world \<Rightarrow> string list \<Rightarrow> workspace \<Rightarrow> (string \<times> string option) io" where
  "getNextVersion w tags workspace =
     bind_io (referenceOf w tags workspace) (\<lambda>(ref, currentVersion).
       bind_io (analyzeCommitsSinceRef w ref (folderNameOf w workspace)) (\<lambda>releaseType.
         let next = semver_inc currentVersion releaseType
         in return_io (getName workspace, next)))"

definition getNextVersionsByWorkspaces ::
  "'o world \<Rightarrow> workspace list \<Rightarrow> (error list + (string \<times> string option) list) \<times> string list list" where
  "getNextVersionsByWorkspaces w workspaces =
     (case getTags w True of
        (Inl e, t) \<Rightarrow> (Inl [e], t)
      | (Inr tags, t) \<Rightarrow>
          (case promise_all
                  (map (\<lambda>workspace.
                          let name = getName workspace;
                              workspaceTags = filter (\<lambda>tag. startsWith tag name) tags
                          in getNextVersion w workspaceTags workspace)
                     workspaces) of
             (r, t') \<Rightarrow> (r, t @ t')))"

section \<open>Notions of the specification\<close>

text \<open>
  The separator as a code unit, and "the directory is a path-prefix of the file": the
  parts of the directory path are a proper initial piece of the parts of the file path.
\<close>

definition sepChar :: "'o world \<Rightarrow> char" where
  "sepChar w = (if win32 w then CHR 0x5C else CHR ''/'')"

definition isPathPrefix :: "'o world \<Rightarrow> string \<Rightarrow> string \<Rightarrow> bool" where
  "isPathPrefix w d fileName = strict_prefix (split (sepChar w) d) (split (sepChar w) fileName)"

text \<open>
  "Deduplicated, in first-seen order": the list is walked from the left and an element is
  kept when it has not been seen before.
\<close>

fun firstSeen :: "'a list \<Rightarrow> 'a list \<Rightarrow> 'a list" where
  "firstSeen seen [] = []"
| "firstSeen seen (x # xs) =
     (if x \<in> set seen then firstSeen seen xs else x # firstSeen (x # seen) xs)"

text \<open>"The basename": what follows the last separator of the path.\<close>

definition basename :: "char \<Rightarrow> string \<Rightarrow> string" where
  "basename sep path = rev (takeWhile (\<lambda>c. c \<noteq> sep) (rev path))"

text \<open>
  The release types of semantic versioning, and the precedence of versions: major, minor
  and patch are compared as numbers; with these equal, a version with a prerelease comes
  before the one without, and two prereleases are compared identifier by identifier, a
  number before a word, numbers by value and words by their code units, a proper initial
  piece before the longer list.
\<close>

definition releaseTypes :: "string list" where
  "releaseTypes = [''major'', ''premajor'', ''minor'', ''preminor'', ''patch'', ''prepatch'', ''prerelease'']"

fun str_less :: "string \<Rightarrow> string \<Rightarrow> bool" where
  "str_less [] [] = False"
| "str_less [] (y # ys) = True"
| "str_less (x # xs) [] = False"
| "str_less (x # xs) (y # ys) =
     ((of_char x :: nat) < of_char y \<or> (x = y \<and> str_less xs ys))"

fun pre_id_less :: "pre_id \<Rightarrow> pre_id \<Rightarrow> bool" where
  "pre_id_less (PNum a) (PNum b) = (a < b)"
| "pre_id_less (PNum a) (PStr t) = True"
| "pre_id_less (PStr s) (PNum b) = False"
| "pre_id_less (PStr s) (PStr t) = str_less s t"

fun pre_less :: "pre_id list \<Rightarrow> pre_id list \<Rightarrow> bool" where
  "pre_less [] [] = False"
| "pre_less [] (y # ys) = True"
| "pre_less (x # xs) [] = False"
| "pre_less (x # xs) (y # ys) = (pre_id_less x y \<or> (x = y \<and> pre_less xs ys))"

definition precedes :: "semver \<Rightarrow> semver \<Rightarrow> bool" where
  "precedes v v' =
     (major v < major v' \<or>
      (major v = major v' \<and>
        (minor v < minor v' \<or>
         (minor v = minor v' \<and>
           (patch v < patch v' \<or>
            (patch v = patch v' \<and>
              prerelease v \<noteq> [] \<and>
              (prerelease v' = [] \<or> pre_less (prerelease v) (prerelease v'))))))))"

section \<open>Example worlds\<close>

text \<open>
  A world given by a table of git command lines and their outcomes (a command line that
  is not in the table fails with exit code 128, as git does on a name it cannot resolve),
  the list of packages and the release type label. The working directory is \<open>/repo\<close> on a
  POSIX platform, and \<open>path.resolve\<close> is given for relative file names.
\<close>

definition gitScript :: "(string list \<times> process) list \<Rightarrow> string list \<Rightarrow> process" where
  "gitScript script args = (case map_of script args of Some p \<Rightarrow> p | None \<Rightarrow> Exited 128 [])"

definition exampleWorld ::
  "(string list \<times> process) list \<Rightarrow> workspace list \<Rightarrow> string option \<Rightarrow> unit world" where
  "exampleWorld script pkgs label =
     \<lparr>git = gitScript script,
      cwd = ''/repo'',
      path_resolve = (\<lambda>file. if file = [] then ''/repo'' else ''/repo/'' @ file),
      win32 = False,
      packages = (\<lambda>opts. Inr pkgs),
      analyzeCommitsSinceRef = (\<lambda>ref folder. (Inr label, []))\<rparr>"

text \<open>
  The packages and the git outcomes of the scenarios: the packages \<open>a\<close> and \<open>b\<close>, a
  package \<open>c\<close> no file belongs to, and a repository where the merge base with \<open>v1\<close> is
  found and three files differ from it.
\<close>

definition pkgA :: workspace where
  "pkgA = \<lparr>dir = ''/repo/pkg-a'', getName = ''a'', getVersion = ''1.2.0''\<rparr>"

definition pkgB :: workspace where
  "pkgB = \<lparr>dir = ''/repo/pkg-b'', getName = ''b'', getVersion = ''2.0.0''\<rparr>"

definition pkgC :: workspace where
  "pkgC = \<lparr>dir = ''/repo/pkg-c'', getName = ''c'', getVersion = ''0.1.0''\<rparr>"

definition diffScript :: "(string list \<times> process) list" where
  "diffScript =
     [([''merge-base'', ''v1'', ''HEAD''], Exited 0 (''4f2a9c1'' @ [LF])),
      ([''diff'', ''--name-only'', ''4f2a9c1''],
         Exited 0 (''pkg-a/x.ts'' @ [LF] @ ''pkg-b/y.ts'' @ [LF] @ ''deleted.ts'' @ [LF]))]"

definition tagScript :: "(string list \<times> process) list" where
  "tagScript =
     [([''tag'', ''--sort=-refname''], Exited 0 (''v2'' @ [LF] @ ''v1'' @ [LF])),
      ([''merge-base'', ''--is-ancestor'', ''v2'', ''HEAD''], Exited 1 []),
      ([''merge-base'', ''--is-ancestor'', ''v1'', ''HEAD''], Exited 0 [])]"

text \<open>
  A repository with release tags of the packages \<open>a\<close> and \<open>b\<close>, where the tag \<open>a-1.5.0\<close>
  is not an ancestor of the head, and with the commits of the folders \<open>pkg-a\<close> and
  \<open>pkg-c\<close>.
\<close>

definition releaseScript :: "(string list \<times> process) list" where
  "releaseScript =
     [([''tag'', ''--sort=-refname''],
         Exited 0 (''b-2.0.0'' @ [LF] @ ''a-1.5.0'' @ [LF] @ ''a-1.4.0'' @ [LF])),
      ([''merge-base'', ''--is-ancestor'', ''b-2.0.0'', ''HEAD''], Exited 0 []),
      ([''merge-base'', ''--is-ancestor'', ''a-1.5.0'', ''HEAD''], Exited 1 []),
      ([''merge-base'', ''--is-ancestor'', ''a-1.4.0'', ''HEAD''], Exited 0 []),
      ([''log'', ''--reverse'', ''--pretty=format:%H'', ''--'', ''pkg-a''],
         Exited 0 (''1111111'' @ [LF] @ ''2222222'')),
      ([''log'', ''--reverse'', ''--pretty=format:%H'', ''--'', ''pkg-c''],
         Exited 0 (''3333333'' @ [LF] @ ''4444444''))]"

text \<open>
  A package whose recorded version is not a semantic version, in a repository without
  tags; and two packages where the name of one starts with the name of the other, with a
  release tag each, both ancestors of the head.
\<close>

definition pkgD :: workspace where
  "pkgD = \<lparr>dir = ''/repo/pkg-d'', getName = ''d'', getVersion = ''1.0''\<rparr>"

definition draftScript :: "(string list \<times> process) list" where
  "draftScript =
     [([''tag'', ''--sort=-refname''], Exited 0 []),
      ([''log'', ''--reverse'', ''--pretty=format:%H'', ''--'', ''pkg-d''],
         Exited 0 (''5555555'' @ [LF] @ ''6666666''))]"

definition pkgUi :: workspace where
  "pkgUi = \<lparr>dir = ''/repo/ui'', getName = ''ui'', getVersion = ''1.0.0''\<rparr>"

definition pkgUiKit :: workspace where
  "pkgUiKit = \<lparr>dir = ''/repo/ui-kit'', getName = ''ui-kit'', getVersion = ''1.0.0''\<rparr>"

definition collisionScript :: "(string list \<times> process) list" where
  "collisionScript =
     [([''tag'', ''--sort=-refname''], Exited 0 (''ui-kit-1.0.0'' @ [LF] @ ''ui-1.0.0'' @ [LF])),
      ([''merge-base'', ''--is-ancestor'', ''ui-kit-1.0.0'', ''HEAD''], Exited 0 []),
      ([''merge-base'', ''--is-ancestor'', ''ui-1.0.0'', ''HEAD''], Exited 0 [])]"

section \<open>Properties of the string functions\<close>

lemma startsWith_prefix: "startsWith s p \<longleftrightarrow> prefix p s"
  by (induction s p rule: startsWith.induct) auto

lemma splitFrom_acc:
  "splitFrom sep acc s = (rev acc @ hd (splitFrom sep [] s)) # tl (splitFrom sep [] s)"
proof (induction s arbitrary: acc)
  case Nil
  show ?case by simp
next
  case (Cons c cs)
  from Cons [of "c # acc"] Cons [of "[c]"] show ?case by simp
qed

lemma split_Nil: "split sep [] = [[]]"
  by (simp add: split_def)

lemma split_Cons:
  "split sep (c # cs) =
     (if c = sep then [] # split sep cs else (c # hd (split sep cs)) # tl (split sep cs))"
  using splitFrom_acc [of sep "[c]" cs] by (simp add: split_def)

lemma split_not_Nil: "split sep s \<noteq> []"
  by (induction s) (simp_all add: split_Nil split_Cons)

lemma split_no_sep: "sep \<notin> set s \<Longrightarrow> split sep s = [s]"
  by (induction s) (auto simp: split_Nil split_Cons)

lemma trim_Nil: "trim [] = []"
  by (simp add: trim_def)

lemma trim_padded:
  assumes "h \<noteq> []" "\<not> isWhiteSpace (hd h)" "\<not> isWhiteSpace (last h)"
    and "list_all isWhiteSpace pad"
  shows "trim (h @ pad) = h"
proof -
  from assms(1,2) have a: "dropWhile isWhiteSpace (h @ pad) = h @ pad"
    by (cases h) auto
  from assms(1,3) have c: "dropWhile isWhiteSpace (rev h) = rev h"
    by (cases h rule: rev_cases) auto
  from assms(4) have "dropWhile isWhiteSpace (rev pad @ rev h) = dropWhile isWhiteSpace (rev h)"
    by (intro dropWhile_append2) (auto simp: list_all_iff)
  with a c show ?thesis by (simp add: trim_def)
qed

lemma trim_snoc:
  assumes "isWhiteSpace c"
  shows "trim (s @ [c]) = trim s"
proof (cases "list_all isWhiteSpace s")
  case True
  then have "\<forall>x \<in> set s. isWhiteSpace x" by (simp add: list_all_iff)
  with assms have "dropWhile isWhiteSpace (s @ [c]) = []" "dropWhile isWhiteSpace s = []"
    by (intro dropWhile_eq_Nil_conv [THEN iffD2]; simp)+
  then show ?thesis by (simp only: trim_def rev.simps dropWhile.simps)
next
  case False
  then obtain x where "x \<in> set s" "\<not> isWhiteSpace x"
    by (auto simp: list_all_iff)
  then have "dropWhile isWhiteSpace (s @ [c]) = dropWhile isWhiteSpace s @ [c]"
    by (rule dropWhile_append1)
  with assms show ?thesis by (simp add: trim_def)
qed

lemma trim_butlast: "s \<noteq> [] \<Longrightarrow> isWhiteSpace (last s) \<Longrightarrow> trim (butlast s) = trim s"
  using trim_snoc [of "last s" "butlast s"] by simp

lemma trim_stripFinalNewline: "trim (stripFinalNewline s) = trim s"
proof -
  have ws: "isWhiteSpace LF" "isWhiteSpace CR"
    by (simp_all add: isWhiteSpace_def LF_def CR_def)
  define y where "y = (if s \<noteq> [] \<and> last s = LF then butlast s else s)"
  have "trim y = trim s"
    unfolding y_def using ws(1) by (simp add: trim_butlast)
  moreover have "trim (if y \<noteq> [] \<and> last y = CR then butlast y else y) = trim y"
    using ws(2) by (simp add: trim_butlast)
  moreover have "stripFinalNewline s = (if y \<noteq> [] \<and> last y = CR then butlast y else y)"
    by (simp add: stripFinalNewline_def y_def Let_def)
  ultimately show ?thesis by simp
qed

lemma stripFinalNewline_Nil: "stripFinalNewline [] = []"
  by (simp add: stripFinalNewline_def)

lemma hd_split_trim:
  assumes "h \<noteq> []" "list_all (\<lambda>c. \<not> isWhiteSpace c) h" "list_all isWhiteSpace pad"
  shows "hd (split LF (trim (h @ pad))) = h"
proof -
  from assms(1,2) have "\<not> isWhiteSpace (hd h)" "\<not> isWhiteSpace (last h)"
    by (auto simp: list_all_iff)
  with assms have "trim (h @ pad) = h" by (simp add: trim_padded)
  moreover from assms(2) have "LF \<notin> set h"
    by (auto simp: list_all_iff isWhiteSpace_def LF_def)
  ultimately show ?thesis by (simp add: split_no_sep)
qed

lemma split_append_sep: "split c (xs @ c # ys) = split c xs @ split c ys"
proof (induction xs)
  case Nil
  show ?case by (simp add: split_Nil split_Cons)
next
  case (Cons x xs)
  then show ?case by (simp add: split_not_Nil split_Cons)
qed

lemma join_split: "join [c] (split c s) = s"
proof (induction s)
  case Nil
  show ?case by (simp add: split_Nil)
next
  case (Cons x s)
  obtain p ps where sp: "split c s = p # ps"
    using split_not_Nil [of c s] by (cases "split c s") auto
  with Cons show ?case by (cases ps) (auto simp: split_Cons)
qed

lemma join_append:
  "xs \<noteq> [] \<Longrightarrow> ys \<noteq> [] \<Longrightarrow> join [c] (xs @ ys) = join [c] xs @ c # join [c] ys"
proof (induction xs)
  case Nil
  then show ?case by simp
next
  case (Cons x xs)
  then show ?case by (cases xs; cases ys) auto
qed

text \<open>
  A string starts with \<open>d\<close> followed by the separator exactly when the parts of \<open>d\<close> are
  a proper initial piece of its parts.
\<close>

lemma prefix_sep_segments:
  "prefix (d @ [c]) fileName \<longleftrightarrow> strict_prefix (split c d) (split c fileName)"
proof
  assume "prefix (d @ [c]) fileName"
  then obtain rest where "fileName = d @ c # rest" by (auto simp: prefix_def)
  then have "split c fileName = split c d @ split c rest" by (simp add: split_append_sep)
  then show "strict_prefix (split c d) (split c fileName)"
    using split_not_Nil [of c rest] by (auto simp: strict_prefix_def)
next
  assume "strict_prefix (split c d) (split c fileName)"
  then obtain more where m: "split c fileName = split c d @ more" "more \<noteq> []"
    by (auto simp: strict_prefix_def prefix_def)
  have "fileName = join [c] (split c fileName)" by (simp add: join_split)
  also have "\<dots> = join [c] (split c d) @ c # join [c] more"
    using m split_not_Nil [of c d] by (simp add: join_append)
  also have "\<dots> = d @ c # join [c] more" by (simp add: join_split)
  finally show "prefix (d @ [c]) fileName" by (simp add: prefix_def)
qed

lemma includes_sublist: "includes_str s p \<longleftrightarrow> sublist p s"
  by (induction s) (simp_all add: startsWith_prefix sublist_Cons_right)

lemma last_split: "last (split c s) = basename c s"
proof (cases "c \<in> set s")
  case True
  then obtain pre post where s: "s = pre @ c # post" "c \<notin> set post"
    by (auto dest: split_list_last)
  then have "split c s = split c pre @ [post]"
    by (simp add: split_append_sep split_no_sep)
  moreover have "takeWhile (\<lambda>x. x \<noteq> c) (rev post @ c # rev pre) = rev post"
    using s(2) by (induction post rule: rev_induct) auto
  with s(1) have "takeWhile (\<lambda>x. x \<noteq> c) (rev s) = rev post"
    by simp
  ultimately show ?thesis by (simp add: basename_def)
next
  case False
  then have "takeWhile (\<lambda>x. x \<noteq> c) (rev s) = rev s"
    by (intro takeWhile_eq_all_conv [THEN iffD2]) auto
  with False show ?thesis by (simp add: split_no_sep basename_def del: takeWhile_eq_all_conv)
qed

lemma basename_no_sep: "sep \<notin> set (basename sep path)"
  by (auto simp: basename_def dest: set_takeWhileD)

lemma basename_suffix: "suffix (basename sep path) path"
  unfolding basename_def
  by (metis rev_rev_ident suffix_to_prefix takeWhile_is_prefix)

lemma replace_first_prefix: "replace_first (p @ v) p = v"
proof (cases "p @ v")
  case Nil
  then show ?thesis by simp
next
  case (Cons c cs)
  have "startsWith (p @ v) p" by (simp add: startsWith_prefix)
  with Cons have "replace_first (p @ v) p = drop (length p) (p @ v)"
    by (metis replace_first.simps(2))
  then show ?thesis by simp
qed

section \<open>Properties of git.ts\<close>

lemma fst_bind_io:
  "fst (bind_io m f) = (case fst m of Inl e \<Rightarrow> Inl e | Inr x \<Rightarrow> fst (f x))"
  by (cases m) (auto simp: bind_io_def split: sum.splits prod.splits)

lemma fst_return_io: "fst (return_io x) = Inr x"
  by (simp add: return_io_def)

lemma fst_throw_io: "fst (throw_io e) = Inl e"
  by (simp add: throw_io_def)


text \<open>
  Claim C7. \<open>getChangedFilesSinceRef\<close> called with \<open>null\<close> for the ref throws the error
  for a missing ref, whatever \<open>fullPath\<close> is, and has run no git command by then: the
  error is the whole outcome of the call.
\<close>

theorem getChangedFilesSinceRef_null:
  "getChangedFilesSinceRef w Null fullPath = (Inl MissingRefError, [])"
  by (simp add: getChangedFilesSinceRef_def throw_io_def)

text \<open>
  Claim C8. \<open>isRefInHistory\<close> returns \<open>false\<close> exactly when the ancestry check
  \<open>git merge-base --is-ancestor ref HEAD\<close> exits with code 1 and \<open>true\<close> exactly when it
  exits with code 0; with any other exit code the call throws the error of the command
  and returns no boolean.
\<close>

theorem isRefInHistory_exit_code:
  "(fst (isRefInHistory w ref) = Inr False \<longleftrightarrow>
      (\<exists>out. git w [''merge-base'', ''--is-ancestor'', ref, ''HEAD''] = Exited 1 out))
   \<and> (fst (isRefInHistory w ref) = Inr True \<longleftrightarrow>
      (\<exists>out. git w [''merge-base'', ''--is-ancestor'', ref, ''HEAD''] = Exited 0 out))
   \<and> (\<forall>n out. git w [''merge-base'', ''--is-ancestor'', ref, ''HEAD''] = Exited n out
          \<and> n \<noteq> 0 \<and> n \<noteq> 1
        \<longrightarrow> fst (isRefInHistory w ref) = Inl (ExecaError (ExitCode n)))"
  by (auto simp: isRefInHistory_def execa_def split: process.splits)

theorem isRefInHistory_exit_code_witness:
  "fst (isRefInHistory
      (exampleWorld [([''merge-base'', ''--is-ancestor'', ''a-1.4.0'', ''HEAD''], Exited 1 [])] [] None)
      ''a-1.4.0'') = Inr False
   \<and> fst (isRefInHistory
      (exampleWorld [([''merge-base'', ''--is-ancestor'', ''a-1.4.0'', ''HEAD''], Exited 0 [])] [] None)
      ''a-1.4.0'') = Inr True
   \<and> fst (isRefInHistory (exampleWorld [] [] None) ''a-1.4.0'') = Inl (ExecaError (ExitCode 128))"
  using
    isRefInHistory_exit_code [of
      "exampleWorld [([''merge-base'', ''--is-ancestor'', ''a-1.4.0'', ''HEAD''], Exited 1 [])] [] None"
      "''a-1.4.0''"]
    isRefInHistory_exit_code [of
      "exampleWorld [([''merge-base'', ''--is-ancestor'', ''a-1.4.0'', ''HEAD''], Exited 0 [])] [] None"
      "''a-1.4.0''"]
    isRefInHistory_exit_code [of "exampleWorld [] [] None" "''a-1.4.0''"]
  by (simp add: exampleWorld_def gitScript_def)

text \<open>
  Claim C9. \<open>getRef\<close> never throws. When \<open>git rev-parse name\<close> does not exit with code 0,
  as for a name that does not exist, it returns \<open>null\<close>; when the command exits with
  code 0 and prints a commit hash (a non-empty word \<open>h\<close> without white space, followed by
  white space or a line end at most), it returns \<open>h\<close>.
\<close>

theorem getRef_null_or_hash:
  "(\<exists>v. fst (getRef w name) = Inr v)
   \<and> ((\<forall>out. git w [''rev-parse'', name] \<noteq> Exited 0 out) \<longrightarrow> fst (getRef w name) = Inr None)
   \<and> (\<forall>h pad. git w [''rev-parse'', name] = Exited 0 (h @ pad) \<and> h \<noteq> [] \<and>
          list_all (\<lambda>c. \<not> isWhiteSpace c) h \<and> list_all isWhiteSpace pad
        \<longrightarrow> fst (getRef w name) = Inr (Some h))"
  by (auto simp: getRef_def execa_def hd_split_trim trim_stripFinalNewline split: process.splits)

theorem getRef_null_or_hash_witness:
  "fst (getRef (exampleWorld [([''rev-parse'', ''master''], Exited 0 (''4f2a9c1'' @ [LF]))] [] None)
      ''master'') = Inr (Some ''4f2a9c1'')
   \<and> fst (getRef (exampleWorld [([''rev-parse'', ''master''], Exited 0 (''4f2a9c1'' @ [LF]))] [] None)
      ''no-such-branch'') = Inr None"
proof -
  let ?w = "exampleWorld [([''rev-parse'', ''master''], Exited 0 (''4f2a9c1'' @ [LF]))] [] None"
  have found: "git ?w [''rev-parse'', ''master''] = Exited 0 (''4f2a9c1'' @ [LF])"
    by (simp add: exampleWorld_def gitScript_def)
  have missing: "\<forall>out. git ?w [''rev-parse'', ''no-such-branch''] \<noteq> Exited 0 out"
    by (simp add: exampleWorld_def gitScript_def)
  have word: "''4f2a9c1'' \<noteq> [] \<and> list_all (\<lambda>c. \<not> isWhiteSpace c) ''4f2a9c1''
      \<and> list_all isWhiteSpace [LF]"
    by (simp add: isWhiteSpace_def LF_def)
  from getRef_null_or_hash [of ?w "''master''"] found word
  have "fst (getRef ?w ''master'') = Inr (Some ''4f2a9c1'')"
    by blast
  moreover from getRef_null_or_hash [of ?w "''no-such-branch''"] missing
  have "fst (getRef ?w ''no-such-branch'') = Inr None"
    by blast
  ultimately show ?thesis by simp
qed

text \<open>
  Claim C10. For a ref that is not \<open>null\<close>, when the merge base is found and
  \<open>git diff --name-only\<close> prints nothing, \<open>getChangedFilesSinceRef\<close> returns the list of
  one element, the empty string, or with \<open>fullPath\<close> what \<open>path.resolve\<close> makes of the
  empty string. No list it returns is empty.
\<close>

theorem getChangedFilesSinceRef_empty_diff:
  "(ref \<noteq> Null \<and> git w [''merge-base'', argOf ref, ''HEAD''] = Exited 0 out
      \<and> git w [''diff'', ''--name-only'', trim out] = Exited 0 []
    \<longrightarrow> fst (getChangedFilesSinceRef w ref fullPath)
        = Inr (if fullPath then [path_resolve w []] else [[]]))
   \<and> (\<forall>files. fst (getChangedFilesSinceRef w ref fullPath) = Inr files \<longrightarrow> files \<noteq> [])"
  by (auto simp: getChangedFilesSinceRef_def execa_def bind_io_def return_io_def throw_io_def
        trim_Nil split_not_Nil split_Nil trim_stripFinalNewline Let_def
      split: if_splits process.splits)

theorem getChangedFilesSinceRef_empty_diff_witness:
  "fst (getChangedFilesSinceRef
      (exampleWorld [([''merge-base'', ''v1'', ''HEAD''], Exited 0 (''4f2a9c1'' @ [LF])),
                     ([''diff'', ''--name-only'', ''4f2a9c1''], Exited 0 [])] [] None)
      (Str ''v1'') False) = Inr [[]]
   \<and> fst (getChangedFilesSinceRef
      (exampleWorld [([''merge-base'', ''v1'', ''HEAD''], Exited 0 (''4f2a9c1'' @ [LF])),
                     ([''diff'', ''--name-only'', ''4f2a9c1''], Exited 0 [])] [] None)
      (Str ''v1'') True) = Inr [''/repo'']"
  using
    getChangedFilesSinceRef_empty_diff [of "Str ''v1''"
      "exampleWorld [([''merge-base'', ''v1'', ''HEAD''], Exited 0 (''4f2a9c1'' @ [LF])),
                     ([''diff'', ''--name-only'', ''4f2a9c1''], Exited 0 [])] [] None"
      "''4f2a9c1'' @ [LF]" False]
    getChangedFilesSinceRef_empty_diff [of "Str ''v1''"
      "exampleWorld [([''merge-base'', ''v1'', ''HEAD''], Exited 0 (''4f2a9c1'' @ [LF])),
                     ([''diff'', ''--name-only'', ''4f2a9c1''], Exited 0 [])] [] None"
      "''4f2a9c1'' @ [LF]" True]
  by (simp add: exampleWorld_def gitScript_def trim_def isWhiteSpace_def split_def LF_def)

section \<open>Properties of workspaces.ts\<close>

subsection \<open>Files and their workspaces\<close>

lemma startsWith_isPathPrefix:
  "startsWith fileName (d @ path_sep w) \<longleftrightarrow> isPathPrefix w d fileName"
  by (cases "win32 w")
    (simp_all add: startsWith_prefix isPathPrefix_def path_sep_def sepChar_def prefix_sep_segments)

text \<open>
  Claim C6. \<open>fileNameToPackage\<close> returns \<open>undefined\<close> exactly when no workspace of the list
  has a directory that is a path-prefix of the file, and it returns \<open>pkg\<close> exactly when
  \<open>pkg\<close> stands at an index of the list where the directory is a path-prefix of the file
  and no workspace before that index has such a directory: the first one in the list.
\<close>

theorem fileNameToPackage_first_match:
  "(fileNameToPackage w fileName allPackages = None \<longleftrightarrow>
      \<not> list_ex (\<lambda>pkg. isPathPrefix w (dir pkg) fileName) allPackages)
   \<and> (fileNameToPackage w fileName allPackages = Some pkg \<longleftrightarrow>
      (\<exists>i < length allPackages. allPackages ! i = pkg \<and> isPathPrefix w (dir pkg) fileName
          \<and> (\<forall>j < i. \<not> isPathPrefix w (dir (allPackages ! j)) fileName)))"
  by (auto simp: fileNameToPackage_def find_None_iff find_Some_iff startsWith_isPathPrefix
      list_ex_iff)

theorem fileNameToPackage_first_match_witness:
  "fileNameToPackage (exampleWorld [] [pkgA, pkgB] None) ''/repo/pkg-b/y.ts'' [pkgA, pkgB]
     = Some pkgB
   \<and> fileNameToPackage (exampleWorld [] [pkgA, pkgB] None) ''/repo/deleted.ts'' [pkgA, pkgB]
     = None"
proof -
  let ?w = "exampleWorld [] [pkgA, pkgB] None"
  have a: "\<not> isPathPrefix ?w (dir pkgA) ''/repo/pkg-b/y.ts''"
    and b: "isPathPrefix ?w (dir pkgB) ''/repo/pkg-b/y.ts''"
    and c: "\<not> isPathPrefix ?w (dir pkgA) ''/repo/deleted.ts''"
    and d: "\<not> isPathPrefix ?w (dir pkgB) ''/repo/deleted.ts''"
    by (simp_all add: isPathPrefix_def sepChar_def exampleWorld_def pkgA_def pkgB_def split_def)
  have "\<exists>i < length [pkgA, pkgB]. [pkgA, pkgB] ! i = pkgB
      \<and> isPathPrefix ?w (dir pkgB) ''/repo/pkg-b/y.ts''
      \<and> (\<forall>j < i. \<not> isPathPrefix ?w (dir ([pkgA, pkgB] ! j)) ''/repo/pkg-b/y.ts'')"
    using a b by (intro exI [of _ 1]) simp
  with fileNameToPackage_first_match [of ?w "''/repo/pkg-b/y.ts''" "[pkgA, pkgB]" pkgB]
  have "fileNameToPackage ?w ''/repo/pkg-b/y.ts'' [pkgA, pkgB] = Some pkgB"
    by blast
  moreover
  from fileNameToPackage_first_match [of ?w "''/repo/deleted.ts''" "[pkgA, pkgB]" pkgB] c d
  have "fileNameToPackage ?w ''/repo/deleted.ts'' [pkgA, pkgB] = None"
    by simp
  ultimately show ?thesis by simp
qed

subsection \<open>Changed workspaces\<close>

lemma firstSeen_cong: "set s = set s' \<Longrightarrow> firstSeen s xs = firstSeen s' xs"
proof (induction xs arbitrary: s s')
  case Nil
  show ?case by simp
next
  case (Cons x xs)
  from Cons.prems have "set (x # s) = set (x # s')" by simp
  with Cons.IH [of "x # s" "x # s'"] Cons.IH [of s s'] Cons.prems show ?case by simp
qed

lemma firstSeen_set: "set (firstSeen seen xs) = set xs - set seen"
  by (induction xs arbitrary: seen) auto

lemma firstSeen_distinct: "distinct (firstSeen seen xs)"
  by (induction xs arbitrary: seen) (auto simp: firstSeen_set)

lemma firstSeen_map_inj:
  "inj f \<Longrightarrow> firstSeen (map f seen) (map f xs) = map f (firstSeen seen xs)"
proof (induction xs arbitrary: seen)
  case Nil
  show ?case by simp
next
  case (Cons x xs)
  from Cons.prems have "f x \<in> set (map f seen) \<longleftrightarrow> x \<in> set seen"
    by (auto simp: inj_def)
  with Cons.IH [OF Cons.prems, of seen] Cons.IH [OF Cons.prems, of "x # seen"]
  show ?case by simp
qed

lemma indexOfFrom_takeWhile:
  "indexOfFrom k xs x =
     (if x \<in> set xs then int k + int (length (takeWhile (\<lambda>y. y \<noteq> x) xs)) else - 1)"
  by (induction xs arbitrary: k) auto

lemma indexOf_first:
  "indexOf (pre @ x # suf) x = int (length pre) \<longleftrightarrow> x \<notin> set pre"
proof (cases "x \<in> set pre")
  case True
  then have "length (takeWhile (\<lambda>y. y \<noteq> x) (pre @ x # suf)) < length pre"
    by (induction pre) auto
  with True show ?thesis by (simp add: indexOf_def indexOfFrom_takeWhile)
next
  case False
  then have "takeWhile (\<lambda>y. y \<noteq> x) (pre @ x # suf) = pre"
    by (induction pre) auto
  with False show ?thesis by (simp add: indexOf_def indexOfFrom_takeWhile)
qed

text \<open>
  The filter \<open>packages.indexOf(pkg) === idx\<close> keeps an element where it is seen first.
  The statement is about a suffix of the array, for the induction.
\<close>

lemma filterIdx_suffix:
  "map fst (filter (\<lambda>(x, idx). indexOf (pre @ suf) x = int idx)
       (zip suf [length pre ..< length pre + length suf])) = firstSeen pre suf"
proof (induction suf arbitrary: pre)
  case Nil
  show ?case by simp
next
  case (Cons x suf)
  have up: "[length pre ..< length pre + length (x # suf)]
      = length pre # [length (pre @ [x]) ..< length (pre @ [x]) + length suf]"
    by (simp add: upt_rec)
  have rest: "map fst (filter (\<lambda>(y, idx). indexOf (pre @ x # suf) y = int idx)
        (zip suf [length (pre @ [x]) ..< length (pre @ [x]) + length suf]))
      = firstSeen (pre @ [x]) suf"
    using Cons.IH [of "pre @ [x]"] by simp
  have seen: "firstSeen (pre @ [x]) suf = firstSeen (x # pre) suf"
    by (rule firstSeen_cong) auto
  have seen': "x \<in> set pre \<Longrightarrow> firstSeen (pre @ [x]) suf = firstSeen pre suf"
    by (rule firstSeen_cong) auto
  show ?case
    unfolding up using rest seen seen' by (simp add: indexOf_first)
qed

lemma filterIdx_firstSeen:
  "filterIdx (\<lambda>pkg idx packages. indexOf packages pkg = int idx) xs = firstSeen [] xs"
  using filterIdx_suffix [of "[]" xs] by (simp add: filterIdx_def)

lemma owners_map_filter:
  "map (\<lambda>fileName. fileNameToPackage w fileName allPackages)
     (filter (\<lambda>fileName. fileExistsInPackage w fileName allPackages) changedFiles)
   = map Some (List.map_filter (\<lambda>fileName. fileNameToPackage w fileName allPackages) changedFiles)"
  by (induction changedFiles) (auto simp: fileExistsInPackage_def List.map_filter_simps)

text \<open>
  Workspaces are objects, and \<open>indexOf\<close> compares objects by identity, where the model
  compares their fields. On the array that is filtered the two agree: its elements are
  first matches of \<open>find\<close> in \<open>allPackages\<close>, and two first matches with the same
  directory stand at the same index, so they are the same object.
\<close>

lemma owner_same_place:
  assumes "i < length allPackages" and "j < length allPackages"
    and "startsWith f (dir (allPackages ! i) @ path_sep w)"
    and "\<forall>k < i. \<not> startsWith f (dir (allPackages ! k) @ path_sep w)"
    and "startsWith g (dir (allPackages ! j) @ path_sep w)"
    and "\<forall>k < j. \<not> startsWith g (dir (allPackages ! k) @ path_sep w)"
    and "dir (allPackages ! i) = dir (allPackages ! j)"
  shows "i = j"
proof (rule ccontr)
  assume "i \<noteq> j"
  then consider "i < j" | "j < i" by linarith
  then show False
  proof cases
    case 1
    with assms(6) have "\<not> startsWith g (dir (allPackages ! i) @ path_sep w)" by simp
    with assms(5,7) show False by simp
  next
    case 2
    with assms(4) have "\<not> startsWith f (dir (allPackages ! j) @ path_sep w)" by simp
    with assms(3,7) show False by simp
  qed
qed

text \<open>
  Claim C4. When the changed files since the ref are \<open>changedFiles\<close> and the known
  workspaces are \<open>allPackages\<close>, \<open>getWorkspacesChangedSinceRef\<close> returns workspaces only
  (no \<open>undefined\<close> for a file that belongs to no workspace: such files are left out): the
  workspaces of the changed files that have one, each once, in the order in which the
  files show them first. So the result has no duplicates, and a workspace is in it
  exactly when a changed file belongs to it.
\<close>

theorem getWorkspacesChangedSinceRef_first_seen:
  assumes "fst (getChangedFilesSinceRef w ref True) = Inr changedFiles"
    and "packages w opts = Inr allPackages"
  shows "\<exists>result. fst (getWorkspacesChangedSinceRef w ref opts) = Inr (map Some result)
      \<and> result = firstSeen []
            (List.map_filter (\<lambda>fileName. fileNameToPackage w fileName allPackages) changedFiles)
      \<and> distinct result
      \<and> set result = {pkg. \<exists>fileName \<in> set changedFiles.
            fileNameToPackage w fileName allPackages = Some pkg}"
proof -
  let ?owners =
    "List.map_filter (\<lambda>fileName. fileNameToPackage w fileName allPackages) changedFiles"
  have "fst (getWorkspacesChangedSinceRef w ref opts) = Inr (firstSeen [] (map Some ?owners))"
    using assms
    by (cases "getChangedFilesSinceRef w ref True")
      (simp add: getWorkspacesChangedSinceRef_def getWorkspaces_def bind_io_def return_io_def
        filterIdx_firstSeen owners_map_filter)
  moreover have "firstSeen [] (map Some ?owners) = map Some (firstSeen [] ?owners)"
    using firstSeen_map_inj [of Some "[]" ?owners] by simp
  moreover have "set (firstSeen [] ?owners)
      = {pkg. \<exists>fileName \<in> set changedFiles. fileNameToPackage w fileName allPackages = Some pkg}"
    by (force simp: firstSeen_set List.map_filter_def)
  ultimately show ?thesis by (simp add: firstSeen_distinct)
qed

lemma diffScript_changed:
  "fst (getChangedFilesSinceRef (exampleWorld (diffScript @ tagScript) pkgs label) (Str ''v1'') True)
     = Inr [''/repo/pkg-a/x.ts'', ''/repo/pkg-b/y.ts'', ''/repo/deleted.ts'']"
  by (simp add: getChangedFilesSinceRef_def execa_def stripFinalNewline_def bind_io_def
      return_io_def exampleWorld_def gitScript_def diffScript_def trim_def isWhiteSpace_def
      LF_def CR_def split_def)

theorem getWorkspacesChangedSinceRef_first_seen_witness:
  "fst (getWorkspacesChangedSinceRef (exampleWorld (diffScript @ tagScript) [pkgA, pkgB] None)
      (Str ''v1'') ()) = Inr [Some pkgA, Some pkgB]"
proof -
  let ?w = "exampleWorld (diffScript @ tagScript) [pkgA, pkgB] None"
  have pk: "packages ?w () = Inr [pkgA, pkgB]"
    by (simp add: exampleWorld_def)
  have "List.map_filter (\<lambda>fileName. fileNameToPackage ?w fileName [pkgA, pkgB])
      [''/repo/pkg-a/x.ts'', ''/repo/pkg-b/y.ts'', ''/repo/deleted.ts''] = [pkgA, pkgB]"
    by (simp add: List.map_filter_simps fileNameToPackage_def path_sep_def exampleWorld_def
        pkgA_def pkgB_def)
  with getWorkspacesChangedSinceRef_first_seen [OF diffScript_changed pk] show ?thesis
    by (simp add: pkgA_def pkgB_def)
qed

subsection \<open>Changes by workspace\<close>

lemma lastPart_basename: "lastPart w change = basename (sepChar w) change"
  using last_split [of "sepChar w" change] split_not_Nil [of "sepChar w" change]
  by (simp add: lastPart_def sepChar_def Let_def last_conv_nth)

lemma foldl_buckets:
  "foldl (\<lambda>result workspace. result(dir workspace \<mapsto> g (dir workspace))) m pkgs
     = (\<lambda>key. if key \<in> dir ` set pkgs then Some (g key) else m key)"
  by (induction pkgs arbitrary: m) (auto simp: fun_eq_iff)

text \<open>
  Claim C5. When the changed files since the last tag are \<open>changedFiles\<close> and the known
  workspaces are \<open>allPackages\<close>, the object that \<open>getChangesFromLastTagByWorkspaces\<close>
  returns has the directories of the workspaces for its keys, and under the directory of
  each workspace the basenames of exactly the changed files whose path contains that
  directory, in the order of the changed files. A workspace without such a file has the
  empty list under its key.
\<close>

theorem getChangesFromLastTagByWorkspaces_buckets:
  assumes "fst (getTags w True) = Inr tags"
    and "fst (pLocate tags (isRefInHistory w)) = Inr tag"
    and "fst (getChangedFilesSinceRef w (case tag of None \<Rightarrow> Undefined | Some t \<Rightarrow> Str t) True)
          = Inr changedFiles"
    and "packages w opts = Inr allPackages"
  shows "\<exists>result. fst (getChangesFromLastTagByWorkspaces w opts) = Inr result
      \<and> dom result = dir ` set allPackages
      \<and> (\<forall>workspace \<in> set allPackages.
            result (dir workspace)
              = Some (map (basename (sepChar w))
                        (filter (\<lambda>path. sublist (dir workspace) path) changedFiles))
            \<and> ((\<forall>path \<in> set changedFiles. \<not> sublist (dir workspace) path)
                \<longrightarrow> result (dir workspace) = Some []))"
proof -
  let ?g = "\<lambda>d. map (lastPart w)
      (filter (\<lambda>changeFilePath. includes_str changeFilePath d) changedFiles)"
  let ?result = "\<lambda>key. if key \<in> dir ` set allPackages then Some (?g key) else None"
  have "fst (getChangesFromLastTagByWorkspaces w opts)
      = Inr (foldl (\<lambda>result workspace. result(dir workspace \<mapsto> ?g (dir workspace)))
          Map.empty allPackages)"
    using assms
    by (cases "getTags w True"; cases "pLocate tags (isRefInHistory w)";
        cases "getChangedFilesSinceRef w (case tag of None \<Rightarrow> Undefined | Some t \<Rightarrow> Str t) True")
      (simp add: getChangesFromLastTagByWorkspaces_def getWorkspaces_def bind_io_def return_io_def)
  then have "fst (getChangesFromLastTagByWorkspaces w opts) = Inr ?result"
    using foldl_buckets [of ?g Map.empty allPackages] by simp
  moreover have "dom ?result = dir ` set allPackages"
    by (auto simp: dom_def)
  moreover have "\<forall>workspace \<in> set allPackages.
      ?result (dir workspace)
        = Some (map (basename (sepChar w))
            (filter (\<lambda>path. sublist (dir workspace) path) changedFiles))
      \<and> ((\<forall>path \<in> set changedFiles. \<not> sublist (dir workspace) path)
          \<longrightarrow> ?result (dir workspace) = Some [])"
    by (simp add: includes_sublist lastPart_basename fun_eq_iff)
  ultimately show ?thesis by blast
qed

lemma tagScript_tags:
  "fst (getTags (exampleWorld (diffScript @ tagScript) pkgs label) True) = Inr [''v2'', ''v1'']"
  by (simp add: getTags_def execa_def stripFinalNewline_def bind_io_def return_io_def
      exampleWorld_def gitScript_def diffScript_def tagScript_def trim_def isWhiteSpace_def
      LF_def CR_def split_def)

lemma tagScript_located:
  "fst (pLocate [''v2'', ''v1''] (isRefInHistory (exampleWorld (diffScript @ tagScript) pkgs label)))
     = Inr (Some ''v1'')"
  by (simp add: pLocate_def isRefInHistory_def execa_def exampleWorld_def gitScript_def
      diffScript_def tagScript_def)

theorem getChangesFromLastTagByWorkspaces_buckets_witness:
  "\<exists>result.
     fst (getChangesFromLastTagByWorkspaces
        (exampleWorld (diffScript @ tagScript) [pkgA, pkgB, pkgC] None) ()) = Inr result
     \<and> result ''/repo/pkg-a'' = Some [''x.ts'']
     \<and> result ''/repo/pkg-b'' = Some [''y.ts'']
     \<and> result ''/repo/pkg-c'' = Some []"
proof -
  let ?w = "exampleWorld (diffScript @ tagScript) [pkgA, pkgB, pkgC] None"
  have pk: "packages ?w () = Inr [pkgA, pkgB, pkgC]"
    by (simp add: exampleWorld_def)
  have ch: "fst (getChangedFilesSinceRef ?w (case Some ''v1'' of None \<Rightarrow> Undefined | Some t \<Rightarrow> Str t) True)
      = Inr [''/repo/pkg-a/x.ts'', ''/repo/pkg-b/y.ts'', ''/repo/deleted.ts'']"
    using diffScript_changed [of "[pkgA, pkgB, pkgC]" None] by simp
  have sep: "sepChar ?w = CHR ''/''"
    by (simp add: sepChar_def exampleWorld_def)
  from getChangesFromLastTagByWorkspaces_buckets [OF tagScript_tags tagScript_located ch pk]
  obtain result where r: "fst (getChangesFromLastTagByWorkspaces ?w ()) = Inr result"
    and each: "\<forall>workspace \<in> set [pkgA, pkgB, pkgC].
        result (dir workspace)
          = Some (map (basename (sepChar ?w))
              (filter (\<lambda>path. sublist (dir workspace) path)
                 [''/repo/pkg-a/x.ts'', ''/repo/pkg-b/y.ts'', ''/repo/deleted.ts'']))"
    by blast
  from each [unfolded sep] have "result ''/repo/pkg-a'' = Some [''x.ts'']"
    and "result ''/repo/pkg-b'' = Some [''y.ts'']"
    and "result ''/repo/pkg-c'' = Some []"
    by (simp_all add: pkgA_def pkgB_def pkgC_def basename_def includes_sublist [symmetric])
  with r show ?thesis by blast
qed

subsection \<open>Next versions\<close>

lemma locate_first:
  "locate xs = Inr (Some x) \<longleftrightarrow>
     (\<exists>pre post. xs = pre @ (x, Inr True) # post \<and> (\<forall>p \<in> set pre. snd p = Inr False))"
proof (induction xs)
  case Nil
  show ?case by simp
next
  case (Cons a xs)
  obtain y r where a: "a = (y, r)" by (cases a)
  show ?case
  proof (cases r)
    case (Inl e)
    have "\<not> (\<exists>pre post. a # xs = pre @ (x, Inr True) # post \<and> (\<forall>p \<in> set pre. snd p = Inr False))"
    proof
      assume "\<exists>pre post. a # xs = pre @ (x, Inr True) # post \<and> (\<forall>p \<in> set pre. snd p = Inr False)"
      then obtain pre post where h: "a # xs = pre @ (x, Inr True) # post" "\<forall>p \<in> set pre. snd p = Inr False"
        by blast
      with a Inl show False by (cases pre) auto
    qed
    with a Inl show ?thesis by simp
  next
    case (Inr b)
    show ?thesis
    proof (cases b)
      case True
      have "(\<exists>pre post. a # xs = pre @ (x, Inr True) # post \<and> (\<forall>p \<in> set pre. snd p = Inr False))
          \<longleftrightarrow> y = x"
      proof
        assume "\<exists>pre post. a # xs = pre @ (x, Inr True) # post \<and> (\<forall>p \<in> set pre. snd p = Inr False)"
        then obtain pre post where h: "a # xs = pre @ (x, Inr True) # post" "\<forall>p \<in> set pre. snd p = Inr False"
          by blast
        with a Inr True show "y = x" by (cases pre) auto
      next
        assume "y = x"
        with a Inr True have "a # xs = [] @ (x, Inr True) # xs" by simp
        then show "\<exists>pre post. a # xs = pre @ (x, Inr True) # post \<and> (\<forall>p \<in> set pre. snd p = Inr False)"
          by (intro exI [of _ "[]"] exI [of _ xs]) simp
      qed
      with a Inr True show ?thesis by auto
    next
      case False
      have "(\<exists>pre post. a # xs = pre @ (x, Inr True) # post \<and> (\<forall>p \<in> set pre. snd p = Inr False))
          \<longleftrightarrow> (\<exists>pre post. xs = pre @ (x, Inr True) # post \<and> (\<forall>p \<in> set pre. snd p = Inr False))"
      proof
        assume "\<exists>pre post. a # xs = pre @ (x, Inr True) # post \<and> (\<forall>p \<in> set pre. snd p = Inr False)"
        then obtain pre post where h: "a # xs = pre @ (x, Inr True) # post" "\<forall>p \<in> set pre. snd p = Inr False"
          by blast
        with a Inr False obtain pre' where "pre = a # pre'" by (cases pre) auto
        with h show "\<exists>pre post. xs = pre @ (x, Inr True) # post \<and> (\<forall>p \<in> set pre. snd p = Inr False)"
          by auto
      next
        assume "\<exists>pre post. xs = pre @ (x, Inr True) # post \<and> (\<forall>p \<in> set pre. snd p = Inr False)"
        then obtain pre post where h: "xs = pre @ (x, Inr True) # post" "\<forall>p \<in> set pre. snd p = Inr False"
          by blast
        with a Inr False have "a # xs = (a # pre) @ (x, Inr True) # post \<and> (\<forall>p \<in> set (a # pre). snd p = Inr False)"
          by simp
        then show "\<exists>pre post. a # xs = pre @ (x, Inr True) # post \<and> (\<forall>p \<in> set pre. snd p = Inr False)"
          by blast
      qed
      with a Inr False Cons.IH show ?thesis by simp
    qed
  qed
qed

lemma pLocate_first:
  assumes "tags = pre @ tag # post"
    and "\<forall>t \<in> set pre. fst (tester t) = Inr False"
    and "fst (tester tag) = Inr True"
  shows "fst (pLocate tags tester) = Inr (Some tag)"
proof -
  have "map (\<lambda>x. (x, fst (tester x))) tags
      = map (\<lambda>x. (x, fst (tester x))) pre @ (tag, Inr True) # map (\<lambda>x. (x, fst (tester x))) post"
    using assms(1,3) by simp
  moreover have "\<forall>p \<in> set (map (\<lambda>x. (x, fst (tester x))) pre). snd p = Inr False"
    using assms(2) by simp
  ultimately have "locate (map (\<lambda>x. (x, fst (tester x))) tags) = Inr (Some tag)"
    using locate_first [of "map (\<lambda>x. (x, fst (tester x))) tags" tag] by blast
  then show ?thesis by (simp add: pLocate_def)
qed

lemma semver_minor_example: "semver_inc ''1.2.0'' (Some ''minor'') = Some ''1.3.0''"
  by (simp add: semver_inc_def parseSemVer_def MAX_LENGTH_def trim_def isWhiteSpace_def
      isNumericIdentifier_def isDigit_def toNumber_def digitValue_def MAX_SAFE_INTEGER_def
      inc_def format_def split_def Let_def)

text \<open>
  Claim C2. \<open>getNextVersion\<close> chooses its reference and its current version by the tag
  list. With an empty list the reference is the first commit of the workspace folder and
  the current version is \<open>getVersion()\<close> of the workspace. With a non-empty list the
  reference is the first tag of the list that is an ancestor of the head (the tags before
  it are not), and the current version is that tag without the first occurrence of
  \<open>name-\<close>: for a tag \<open>name-version\<close> it is \<open>version\<close>. The result pairs the name with
  \<open>semver.inc\<close> of the current version and the release type of the commits since the
  reference. A workspace at \<open>1.2.0\<close> without tags whose commits are \<open>minor\<close> gets \<open>1.3.0\<close>.
\<close>

theorem getNextVersion_reference:
  "(tags = [] \<and> fst (getFirstCommitByWorkspaceFolder w (folderNameOf w workspace)) = Inr commit
      \<longrightarrow> fst (referenceOf w tags workspace) = Inr (commit, getVersion workspace))
   \<and> (tags = pre @ tag # post \<and> (\<forall>t \<in> set pre. fst (isRefInHistory w t) = Inr False)
        \<and> fst (isRefInHistory w tag) = Inr True
      \<longrightarrow> fst (referenceOf w tags workspace)
            = Inr (tag, replace_first tag (getName workspace @ ''-''))
          \<and> (tag = getName workspace @ ''-'' @ version
              \<longrightarrow> fst (referenceOf w tags workspace) = Inr (tag, version)))
   \<and> (fst (referenceOf w tags workspace) = Inr (ref, currentVersion)
        \<and> fst (analyzeCommitsSinceRef w ref (folderNameOf w workspace)) = Inr releaseType
      \<longrightarrow> fst (getNextVersion w tags workspace)
            = Inr (getName workspace, semver_inc currentVersion releaseType))
   \<and> (tags = [] \<and> getVersion workspace = ''1.2.0''
        \<and> fst (getFirstCommitByWorkspaceFolder w (folderNameOf w workspace)) = Inr commit
        \<and> fst (analyzeCommitsSinceRef w commit (folderNameOf w workspace)) = Inr (Some ''minor'')
      \<longrightarrow> fst (getNextVersion w tags workspace) = Inr (getName workspace, Some ''1.3.0''))"
proof (intro conjI impI)
  assume "tags = [] \<and> fst (getFirstCommitByWorkspaceFolder w (folderNameOf w workspace)) = Inr commit"
  then show "fst (referenceOf w tags workspace) = Inr (commit, getVersion workspace)"
    by (simp add: referenceOf_def fst_bind_io fst_return_io)
next
  assume a: "tags = pre @ tag # post \<and> (\<forall>t \<in> set pre. fst (isRefInHistory w t) = Inr False)
      \<and> fst (isRefInHistory w tag) = Inr True"
  then have "fst (pLocate tags (isRefInHistory w)) = Inr (Some tag)"
    by (intro pLocate_first [of tags pre tag post]) simp_all
  with a show r: "fst (referenceOf w tags workspace)
      = Inr (tag, replace_first tag (getName workspace @ ''-''))"
    by (simp add: referenceOf_def fst_bind_io fst_return_io)
  assume "tag = getName workspace @ ''-'' @ version"
  with r replace_first_prefix [of "getName workspace @ ''-''" version]
  show "fst (referenceOf w tags workspace) = Inr (tag, version)"
    by simp
next
  assume "fst (referenceOf w tags workspace) = Inr (ref, currentVersion)
      \<and> fst (analyzeCommitsSinceRef w ref (folderNameOf w workspace)) = Inr releaseType"
  then show "fst (getNextVersion w tags workspace)
      = Inr (getName workspace, semver_inc currentVersion releaseType)"
    by (simp add: getNextVersion_def fst_bind_io fst_return_io)
next
  assume "tags = [] \<and> getVersion workspace = ''1.2.0''
      \<and> fst (getFirstCommitByWorkspaceFolder w (folderNameOf w workspace)) = Inr commit
      \<and> fst (analyzeCommitsSinceRef w commit (folderNameOf w workspace)) = Inr (Some ''minor'')"
  then show "fst (getNextVersion w tags workspace) = Inr (getName workspace, Some ''1.3.0'')"
    by (simp add: getNextVersion_def referenceOf_def fst_bind_io fst_return_io semver_minor_example)
qed


lemmas example_defs = exampleWorld_def gitScript_def releaseScript_def pkgA_def pkgB_def pkgC_def
  execa_def stripFinalNewline_def bind_io_def return_io_def throw_io_def trim_def isWhiteSpace_def
  LF_def CR_def split_def

lemma release_firstCommit:
  "fst (getFirstCommitByWorkspaceFolder (exampleWorld releaseScript pkgs label) ''pkg-a'')
     = Inr ''1111111''"
  by (simp add: getFirstCommitByWorkspaceFolder_def example_defs)

lemma release_folder: "folderNameOf (exampleWorld releaseScript pkgs label) pkgA = ''pkg-a''"
  by (simp add: folderNameOf_def path_sep_def example_defs)

lemma release_ancestors:
  "fst (isRefInHistory (exampleWorld releaseScript pkgs label) ''a-1.5.0'') = Inr False"
  "fst (isRefInHistory (exampleWorld releaseScript pkgs label) ''a-1.4.0'') = Inr True"
  "fst (isRefInHistory (exampleWorld releaseScript pkgs label) ''b-2.0.0'') = Inr True"
  by (simp_all add: isRefInHistory_def example_defs)

lemma release_analyze:
  "fst (analyzeCommitsSinceRef (exampleWorld releaseScript pkgs label) ref folder) = Inr label"
  by (simp add: exampleWorld_def)

theorem getNextVersion_reference_witness:
  "fst (referenceOf (exampleWorld releaseScript [pkgA] (Some ''minor'')) [] pkgA)
     = Inr (''1111111'', ''1.2.0'')
   \<and> fst (getNextVersion (exampleWorld releaseScript [pkgA] (Some ''minor'')) [] pkgA)
     = Inr (''a'', Some ''1.3.0'')
   \<and> fst (referenceOf (exampleWorld releaseScript [pkgA] (Some ''minor''))
        [''a-1.5.0'', ''a-1.4.0''] pkgA)
     = Inr (''a-1.4.0'', ''1.4.0'')"
proof -
  let ?w = "exampleWorld releaseScript [pkgA] (Some ''minor'')"
  have commit: "fst (getFirstCommitByWorkspaceFolder ?w (folderNameOf ?w pkgA)) = Inr ''1111111''"
    by (simp add: release_folder release_firstCommit)
  have label: "fst (analyzeCommitsSinceRef ?w ''1111111'' (folderNameOf ?w pkgA)) = Inr (Some ''minor'')"
    by (simp add: release_analyze)
  have version: "getVersion pkgA = ''1.2.0''" and name: "getName pkgA = ''a''"
    by (simp_all add: pkgA_def)
  have tag: "''a-1.4.0'' = getName pkgA @ ''-'' @ ''1.4.0''"
    by (simp add: pkgA_def)
  have tags: "[''a-1.5.0'', ''a-1.4.0''] = [''a-1.5.0''] @ ''a-1.4.0'' # []
      \<and> (\<forall>t \<in> set [''a-1.5.0'']. fst (isRefInHistory ?w t) = Inr False)
      \<and> fst (isRefInHistory ?w ''a-1.4.0'') = Inr True"
    by (simp add: release_ancestors)
  from getNextVersion_reference [of "[]" ?w pkgA "''1111111''"] commit version
  have "fst (referenceOf ?w [] pkgA) = Inr (''1111111'', ''1.2.0'')"
    by simp
  moreover
  from getNextVersion_reference [of "[]" ?w pkgA "''1111111''"] commit label version name
  have "fst (getNextVersion ?w [] pkgA) = Inr (''a'', Some ''1.3.0'')"
    by simp
  moreover
  from getNextVersion_reference [of "[''a-1.5.0'', ''a-1.4.0'']" ?w pkgA _ "[''a-1.5.0'']" "''a-1.4.0''" "[]" "''1.4.0''"]
    tags tag
  have "fst (referenceOf ?w [''a-1.5.0'', ''a-1.4.0''] pkgA) = Inr (''a-1.4.0'', ''1.4.0'')"
    by blast
  ultimately show ?thesis by blast
qed

lemma promise_all_values:
  assumes "length rs = length ps" and "\<forall>i < length ps. fst (ps ! i) = Inr (rs ! i)"
  shows "fst (promise_all ps) = Inr rs"
proof -
  from assms have "map fst ps = map Inr rs"
    by (intro nth_equalityI) simp_all
  then have ps: "map (\<lambda>p. fst p) ps = map Inr rs" by simp
  have "concat (map (\<lambda>p. case fst p of Inl e \<Rightarrow> [e] | Inr x \<Rightarrow> []) ps)
      = concat (map (\<lambda>r. case r of Inl e \<Rightarrow> [e] | Inr x \<Rightarrow> []) (map fst ps))"
    by (simp add: comp_def)
  also have "\<dots> = []" unfolding \<open>map fst ps = map Inr rs\<close> by (induction rs) simp_all
  finally have a: "concat (map (\<lambda>p. case fst p of Inl e \<Rightarrow> [e] | Inr x \<Rightarrow> []) ps) = []" .
  have "concat (map (\<lambda>p. case fst p of Inl e \<Rightarrow> [] | Inr x \<Rightarrow> [x]) ps)
      = concat (map (\<lambda>r. case r of Inl e \<Rightarrow> [] | Inr x \<Rightarrow> [x]) (map fst ps))"
    by (simp add: comp_def)
  also have "\<dots> = rs" unfolding \<open>map fst ps = map Inr rs\<close> by (induction rs) simp_all
  finally have b: "concat (map (\<lambda>p. case fst p of Inl e \<Rightarrow> [] | Inr x \<Rightarrow> [x]) ps) = rs" .
  from a b show ?thesis by (simp add: promise_all_def)
qed

lemma promise_all_reasons:
  assumes "p \<in> set ps" and "fst p = Inl e"
  shows "\<exists>es. fst (promise_all ps) = Inl es \<and> e \<in> set es"
proof -
  let ?reasons = "concat (map (\<lambda>p. case fst p of Inl e \<Rightarrow> [e] | Inr x \<Rightarrow> []) ps)"
  from assms have "e \<in> set ?reasons" by force
  then have "?reasons \<noteq> []" by (metis empty_iff empty_set)
  then have "fst (promise_all ps) = Inl ?reasons" by (simp add: promise_all_def Let_def)
  with \<open>e \<in> set ?reasons\<close> show ?thesis by blast
qed

lemma filter_startsWith:
  "filter (\<lambda>tag. startsWith tag name) tags = filter (prefix name) tags"
  by (simp add: startsWith_prefix)

text \<open>
  Claim C3. \<open>getNextVersionsByWorkspaces\<close> hands to \<open>getNextVersion\<close>, for each workspace,
  the tags of the project that start with the name of the workspace, in the order of the
  tag list, and when every call has returned it returns their results in the order of the
  workspaces. With the tags \<open>b-2.0.0\<close>, \<open>a-1.5.0\<close>, \<open>a-1.4.0\<close> the tags of the workspace
  \<open>a\<close> are \<open>a-1.5.0\<close>, \<open>a-1.4.0\<close>, and the reference is the first of them that is an
  ancestor of the head. A call that throws makes the whole batch throw, with the error of
  one of the calls that threw.
\<close>

theorem getNextVersionsByWorkspaces_filtered:
  assumes "fst (getTags w True) = Inr tags"
  shows "(\<forall>workspace. subseq (filter (prefix (getName workspace)) tags) tags
           \<and> set (filter (prefix (getName workspace)) tags)
               = {tag \<in> set tags. prefix (getName workspace) tag})
      \<and> (length results = length workspaces
          \<and> (\<forall>i < length workspaces.
                fst (getNextVersion w (filter (prefix (getName (workspaces ! i))) tags)
                       (workspaces ! i)) = Inr (results ! i))
         \<longrightarrow> fst (getNextVersionsByWorkspaces w workspaces) = Inr results)
      \<and> (tags = [''b-2.0.0'', ''a-1.5.0'', ''a-1.4.0''] \<and> getName pkg = ''a''
         \<longrightarrow> filter (prefix (getName pkg)) tags = [''a-1.5.0'', ''a-1.4.0'']
           \<and> (fst (isRefInHistory w ''a-1.5.0'') = Inr True
              \<longrightarrow> fst (referenceOf w (filter (prefix (getName pkg)) tags) pkg)
                    = Inr (''a-1.5.0'', ''1.5.0''))
           \<and> (fst (isRefInHistory w ''a-1.5.0'') = Inr False
                \<and> fst (isRefInHistory w ''a-1.4.0'') = Inr True
              \<longrightarrow> fst (referenceOf w (filter (prefix (getName pkg)) tags) pkg)
                    = Inr (''a-1.4.0'', ''1.4.0'')))
      \<and> (i < length workspaces
          \<and> fst (getNextVersion w (filter (prefix (getName (workspaces ! i))) tags)
                   (workspaces ! i)) = Inl e
         \<longrightarrow> (\<exists>es. fst (getNextVersionsByWorkspaces w workspaces) = Inl es \<and> e \<in> set es))"
proof (intro conjI allI impI)
  fix workspace
  show "subseq (filter (prefix (getName workspace)) tags) tags" by simp
  show "set (filter (prefix (getName workspace)) tags)
      = {tag \<in> set tags. prefix (getName workspace) tag}" by simp
next
  let ?ps = "map (\<lambda>workspace. getNextVersion w (filter (prefix (getName workspace)) tags) workspace)
      workspaces"
  assume h: "length results = length workspaces
      \<and> (\<forall>i < length workspaces.
            fst (getNextVersion w (filter (prefix (getName (workspaces ! i))) tags)
                   (workspaces ! i)) = Inr (results ! i))"
  then have "fst (promise_all ?ps) = Inr results"
    by (intro promise_all_values) simp_all
  with assms show "fst (getNextVersionsByWorkspaces w workspaces) = Inr results"
    by (cases "getTags w True"; cases "promise_all ?ps")
      (simp add: getNextVersionsByWorkspaces_def filter_startsWith)
next
  assume "tags = [''b-2.0.0'', ''a-1.5.0'', ''a-1.4.0''] \<and> getName pkg = ''a''"
  then show "filter (prefix (getName pkg)) tags = [''a-1.5.0'', ''a-1.4.0'']" by simp
next
  assume h: "tags = [''b-2.0.0'', ''a-1.5.0'', ''a-1.4.0''] \<and> getName pkg = ''a''"
    and a: "fst (isRefInHistory w ''a-1.5.0'') = Inr True"
  from a have "fst (pLocate [''a-1.5.0'', ''a-1.4.0''] (isRefInHistory w)) = Inr (Some ''a-1.5.0'')"
    by (intro pLocate_first [of _ "[]" _ "[''a-1.4.0'']"]) simp_all
  with h show "fst (referenceOf w (filter (prefix (getName pkg)) tags) pkg)
      = Inr (''a-1.5.0'', ''1.5.0'')"
    by (simp add: referenceOf_def fst_bind_io fst_return_io)
next
  assume h: "tags = [''b-2.0.0'', ''a-1.5.0'', ''a-1.4.0''] \<and> getName pkg = ''a''"
    and a: "fst (isRefInHistory w ''a-1.5.0'') = Inr False
      \<and> fst (isRefInHistory w ''a-1.4.0'') = Inr True"
  from a have "fst (pLocate [''a-1.5.0'', ''a-1.4.0''] (isRefInHistory w)) = Inr (Some ''a-1.4.0'')"
    by (intro pLocate_first [of _ "[''a-1.5.0'']" _ "[]"]) simp_all
  with h show "fst (referenceOf w (filter (prefix (getName pkg)) tags) pkg)
      = Inr (''a-1.4.0'', ''1.4.0'')"
    by (simp add: referenceOf_def fst_bind_io fst_return_io)
next
  let ?call = "\<lambda>workspace. getNextVersion w (filter (prefix (getName workspace)) tags) workspace"
  assume h: "i < length workspaces
      \<and> fst (getNextVersion w (filter (prefix (getName (workspaces ! i))) tags)
             (workspaces ! i)) = Inl e"
  then have "?call (workspaces ! i) \<in> set (map ?call workspaces)" by simp
  with h obtain es where "fst (promise_all (map ?call workspaces)) = Inl es" "e \<in> set es"
    using promise_all_reasons [of "?call (workspaces ! i)" "map ?call workspaces" e] by blast
  with assms show "\<exists>es. fst (getNextVersionsByWorkspaces w workspaces) = Inl es \<and> e \<in> set es"
    by (cases "getTags w True"; cases "promise_all (map ?call workspaces)")
      (simp add: getNextVersionsByWorkspaces_def filter_startsWith)
qed

lemmas semver_defs = semver_inc_def parseSemVer_def MAX_LENGTH_def trim_def isWhiteSpace_def
  isNumericIdentifier_def isDigit_def toNumber_def digitValue_def MAX_SAFE_INTEGER_def
  inc_def incPatch_def incPre_def format_def split_def Let_def

lemma release_tags:
  "fst (getTags (exampleWorld releaseScript pkgs label) True)
     = Inr [''b-2.0.0'', ''a-1.5.0'', ''a-1.4.0'']"
  by (simp add: getTags_def example_defs)

lemma release_next:
  "fst (getNextVersion (exampleWorld releaseScript pkgs (Some ''minor''))
      [''a-1.5.0'', ''a-1.4.0''] pkgA) = Inr (''a'', Some ''1.5.0'')"
  "fst (getNextVersion (exampleWorld releaseScript pkgs (Some ''minor''))
      [''b-2.0.0''] pkgB) = Inr (''b'', Some ''2.1.0'')"
  "fst (getNextVersion (exampleWorld releaseScript pkgs (Some ''minor''))
      [] pkgC) = Inr (''c'', Some ''0.2.0'')"
  by (simp_all add: getNextVersion_def referenceOf_def folderNameOf_def path_sep_def pLocate_def
      isRefInHistory_def getFirstCommitByWorkspaceFolder_def example_defs semver_defs)

theorem getNextVersionsByWorkspaces_filtered_witness:
  "fst (getNextVersionsByWorkspaces (exampleWorld releaseScript [pkgA, pkgB, pkgC] (Some ''minor''))
      [pkgA, pkgB, pkgC])
     = Inr [(''a'', Some ''1.5.0''), (''b'', Some ''2.1.0''), (''c'', Some ''0.2.0'')]"
proof -
  let ?w = "exampleWorld releaseScript [pkgA, pkgB, pkgC] (Some ''minor'')"
  let ?tags = "[''b-2.0.0'', ''a-1.5.0'', ''a-1.4.0'']"
  let ?results = "[(''a'', Some ''1.5.0''), (''b'', Some ''2.1.0''), (''c'', Some ''0.2.0'')]"
  have names: "filter (prefix (getName pkgA)) ?tags = [''a-1.5.0'', ''a-1.4.0'']"
    "filter (prefix (getName pkgB)) ?tags = [''b-2.0.0'']"
    "filter (prefix (getName pkgC)) ?tags = []"
    by (simp_all add: pkgA_def pkgB_def pkgC_def)
  have "length ?results = length [pkgA, pkgB, pkgC]
      \<and> (\<forall>i < length [pkgA, pkgB, pkgC].
            fst (getNextVersion ?w (filter (prefix (getName ([pkgA, pkgB, pkgC] ! i))) ?tags)
                   ([pkgA, pkgB, pkgC] ! i)) = Inr (?results ! i))"
    using release_next [of "[pkgA, pkgB, pkgC]"]
    by (simp add: names less_Suc_eq numeral_3_eq_3 del: filter.simps)
  with getNextVersionsByWorkspaces_filtered [OF release_tags, of ?results "[pkgA, pkgB, pkgC]"] show ?thesis
    by blast
qed

subsection \<open>Increments\<close>

lemma pre_less_append_one: "p \<noteq> [] \<Longrightarrow> pre_less p (p @ [z])"
proof (induction p)
  case Nil
  then show ?case by simp
next
  case (Cons x p)
  then show ?case by (cases p) simp_all
qed

lemma pre_less_bump: "pre_id_less x y \<Longrightarrow> pre_less (a @ x # b) (a @ y # c)"
  by (induction a) simp_all

lemma bumpLast_shape:
  "bumpLast q = Some r \<Longrightarrow>
     \<exists>strs n rest. q = strs @ PNum n # rest \<and> r = strs @ PNum (n + 1) # rest"
proof (induction q arbitrary: r)
  case Nil
  then show ?case by simp
next
  case (Cons x q)
  show ?case
  proof (cases x)
    case (PNum n)
    with Cons.prems have "x # q = [] @ PNum n # q \<and> r = [] @ PNum (n + 1) # q" by simp
    then show ?thesis by blast
  next
    case (PStr s)
    with Cons.prems obtain r' where r': "bumpLast q = Some r'" "r = PStr s # r'"
      by auto
    from Cons.IH [OF r'(1)] obtain strs n rest
      where "q = strs @ PNum n # rest" "r' = strs @ PNum (n + 1) # rest" by blast
    with PStr r'(2) have "x # q = (PStr s # strs) @ PNum n # rest
        \<and> r = (PStr s # strs) @ PNum (n + 1) # rest" by simp
    then show ?thesis by blast
  qed
qed

lemma pre_less_bumpLast:
  assumes "bumpLast (rev p) = Some r"
  shows "pre_less p (rev r)"
proof -
  from bumpLast_shape [OF assms] obtain strs n rest
    where q: "rev p = strs @ PNum n # rest" and r: "r = strs @ PNum (n + 1) # rest" by blast
  from q have "p = rev rest @ PNum n # rev strs"
    by (metis rev_append rev.simps(2) rev_rev_ident append.assoc append_Cons append_Nil)
  moreover from r have "rev r = rev rest @ PNum (n + 1) # rev strs" by simp
  ultimately show ?thesis by (simp add: pre_less_bump)
qed

lemma incPre_precedes:
  assumes "prerelease v \<noteq> []"
  shows "precedes v (incPre v)"
proof (cases "bumpLast (rev (prerelease v))")
  case None
  with assms have "incPre v = v\<lparr>prerelease := prerelease v @ [PNum 0]\<rparr>"
    by (simp add: incPre_def)
  with assms show ?thesis by (simp add: precedes_def pre_less_append_one)
next
  case (Some r)
  with assms have "incPre v = v\<lparr>prerelease := rev r\<rparr>"
    by (simp add: incPre_def)
  with assms pre_less_bumpLast [OF Some] show ?thesis by (simp add: precedes_def)
qed

lemma inc_major:
  "inc v ''major'' =
     Some ((if minor v \<noteq> 0 \<or> patch v \<noteq> 0 \<or> length (prerelease v) = 0
            then v\<lparr>major := major v + 1\<rparr> else v)\<lparr>minor := 0, patch := 0, prerelease := []\<rparr>)"
  by (simp add: inc_def)

lemma inc_premajor:
  "inc v ''premajor'' =
     Some (incPre (v\<lparr>prerelease := [], patch := 0, minor := 0, major := major v + 1\<rparr>))"
  by (simp add: inc_def)

lemma inc_minor:
  "inc v ''minor'' =
     Some ((if patch v \<noteq> 0 \<or> length (prerelease v) = 0
            then v\<lparr>minor := minor v + 1\<rparr> else v)\<lparr>patch := 0, prerelease := []\<rparr>)"
  by (simp add: inc_def)

lemma inc_preminor:
  "inc v ''preminor'' =
     Some (incPre (v\<lparr>prerelease := [], patch := 0, minor := minor v + 1\<rparr>))"
  by (simp add: inc_def)

lemma inc_patch: "inc v ''patch'' = Some (incPatch v)"
  by (simp add: inc_def)

lemma inc_prepatch: "inc v ''prepatch'' = Some (incPre (incPatch (v\<lparr>prerelease := []\<rparr>)))"
  by (simp add: inc_def)

lemma inc_prerelease:
  "inc v ''prerelease'' = Some (incPre (if length (prerelease v) = 0 then incPatch v else v))"
  by (simp add: inc_def)

lemma incPre_empty:
  "prerelease v = [] \<Longrightarrow> major (incPre v) = major v \<and> minor (incPre v) = minor v
     \<and> patch (incPre v) = patch v \<and> prerelease (incPre v) = [PNum 0]"
  by (simp add: incPre_def)

lemma incPatch_fields:
  "major (incPatch v) = major v \<and> minor (incPatch v) = minor v
     \<and> patch (incPatch v) = (if prerelease v = [] then patch v + 1 else patch v)
     \<and> prerelease (incPatch v) = []"
  by (simp add: incPatch_def)

lemma precedes_major:
  assumes "inc v ''major'' = Some v'"
  shows "precedes v v'"
proof -
  from assms have "v' = (if minor v \<noteq> 0 \<or> patch v \<noteq> 0 \<or> length (prerelease v) = 0
      then v\<lparr>major := major v + 1\<rparr> else v)\<lparr>minor := 0, patch := 0, prerelease := []\<rparr>"
    by (simp add: inc_major)
  then show ?thesis
    by (cases "minor v \<noteq> 0 \<or> patch v \<noteq> 0 \<or> length (prerelease v) = 0")
      (simp_all add: precedes_def)
qed

lemma precedes_premajor:
  assumes "inc v ''premajor'' = Some v'"
  shows "precedes v v'"
proof -
  from assms
  have "v' = incPre (v\<lparr>prerelease := [], patch := 0, minor := 0, major := major v + 1\<rparr>)"
    by (simp add: inc_premajor)
  then have "major v' = major v + 1"
    using incPre_empty [of "v\<lparr>prerelease := [], patch := 0, minor := 0, major := major v + 1\<rparr>"]
    by simp
  then show ?thesis by (simp add: precedes_def)
qed

lemma precedes_minor:
  assumes "inc v ''minor'' = Some v'"
  shows "precedes v v'"
proof -
  from assms have "v' = (if patch v \<noteq> 0 \<or> length (prerelease v) = 0
      then v\<lparr>minor := minor v + 1\<rparr> else v)\<lparr>patch := 0, prerelease := []\<rparr>"
    by (simp add: inc_minor)
  then show ?thesis
    by (cases "patch v \<noteq> 0 \<or> length (prerelease v) = 0") (simp_all add: precedes_def)
qed

lemma precedes_preminor:
  assumes "inc v ''preminor'' = Some v'"
  shows "precedes v v'"
proof -
  from assms have "v' = incPre (v\<lparr>prerelease := [], patch := 0, minor := minor v + 1\<rparr>)"
    by (simp add: inc_preminor)
  then have "major v' = major v \<and> minor v' = minor v + 1"
    using incPre_empty [of "v\<lparr>prerelease := [], patch := 0, minor := minor v + 1\<rparr>"]
    by simp
  then show ?thesis by (simp add: precedes_def)
qed

lemma precedes_patch:
  assumes "inc v ''patch'' = Some v'"
  shows "precedes v v'"
proof -
  from assms have "v' = incPatch v" by (simp add: inc_patch)
  then show ?thesis
    using incPatch_fields [of v] by (cases "prerelease v = []") (simp_all add: precedes_def)
qed

lemma precedes_prepatch:
  assumes "inc v ''prepatch'' = Some v'"
  shows "precedes v v'"
proof -
  from assms have "v' = incPre (incPatch (v\<lparr>prerelease := []\<rparr>))"
    by (simp add: inc_prepatch)
  then have "major v' = major v \<and> minor v' = minor v \<and> patch v' = patch v + 1"
    using incPre_empty [of "incPatch (v\<lparr>prerelease := []\<rparr>)"]
      incPatch_fields [of "v\<lparr>prerelease := []\<rparr>"]
    by simp
  then show ?thesis by (simp add: precedes_def)
qed

lemma precedes_prerelease:
  assumes "inc v ''prerelease'' = Some v'"
  shows "precedes v v'"
proof (cases "prerelease v = []")
  case True
  with assms have "v' = incPre (incPatch v)" by (simp add: inc_prerelease)
  then have "major v' = major v \<and> minor v' = minor v \<and> patch v' = patch v + 1"
    using incPre_empty [of "incPatch v"] incPatch_fields [of v] True by simp
  then show ?thesis by (simp add: precedes_def)
next
  case False
  with assms have "v' = incPre v" by (simp add: inc_prerelease)
  with False show ?thesis by (simp add: incPre_precedes)
qed

lemma inc_precedes:
  assumes "r \<in> set releaseTypes" and "inc v r = Some v'"
  shows "precedes v v'"
proof -
  from assms(1) have "r = ''major'' \<or> r = ''premajor'' \<or> r = ''minor'' \<or> r = ''preminor''
      \<or> r = ''patch'' \<or> r = ''prepatch'' \<or> r = ''prerelease''"
    by (simp add: releaseTypes_def)
  then show ?thesis
  proof (elim disjE)
    assume "r = ''major''"
    with assms(2) show ?thesis by (intro precedes_major) simp
  next
    assume "r = ''premajor''"
    with assms(2) show ?thesis by (intro precedes_premajor) simp
  next
    assume "r = ''minor''"
    with assms(2) show ?thesis by (intro precedes_minor) simp
  next
    assume "r = ''preminor''"
    with assms(2) show ?thesis by (intro precedes_preminor) simp
  next
    assume "r = ''patch''"
    with assms(2) show ?thesis by (intro precedes_patch) simp
  next
    assume "r = ''prepatch''"
    with assms(2) show ?thesis by (intro precedes_prepatch) simp
  next
    assume "r = ''prerelease''"
    with assms(2) show ?thesis by (intro precedes_prerelease) simp
  qed
qed

lemma inc_defined:
  "inc v r \<noteq> None \<longleftrightarrow> r \<in> set (''pre'' # releaseTypes)"
  by (auto simp: inc_def releaseTypes_def)

lemma inc_release:
  assumes "prerelease v = []"
  shows "inc v ''major'' = Some \<lparr>major = major v + 1, minor = 0, patch = 0, prerelease = []\<rparr>"
    and "inc v ''minor'' = Some \<lparr>major = major v, minor = minor v + 1, patch = 0, prerelease = []\<rparr>"
    and "inc v ''patch'' = Some \<lparr>major = major v, minor = minor v, patch = patch v + 1, prerelease = []\<rparr>"
  using assms by (cases v; simp add: inc_def incPatch_def)+


lemma str_less_irrefl: "\<not> str_less s s"
  by (induction s) simp_all

lemma pre_id_less_irrefl: "\<not> pre_id_less x x"
  by (cases x) (simp_all add: str_less_irrefl)

lemma pre_less_irrefl: "\<not> pre_less p p"
  by (induction p) (simp_all add: pre_id_less_irrefl)

lemma precedes_irrefl: "\<not> precedes v v"
  by (simp add: precedes_def pre_less_irrefl)

lemma semver_inc_None:
  "semver_inc version release = None \<longleftrightarrow>
     parseSemVer version = None \<or> release \<notin> Some ` set (''pre'' # releaseTypes)"
proof (cases "parseSemVer version")
  case None
  then show ?thesis by (simp add: semver_inc_def)
next
  case (Some v)
  show ?thesis
  proof (cases release)
    case None
    with Some show ?thesis by (auto simp: semver_inc_def)
  next
    case (Some r)
    have "inc v r = None \<longleftrightarrow> r \<notin> set (''pre'' # releaseTypes)"
      using inc_defined [of v r] by blast
    with Some \<open>parseSemVer version = Some v\<close> show ?thesis
      by (cases "inc v r") (auto simp: semver_inc_def)
  qed
qed

text \<open>
  Claim C1, as amended. When the current version of \<open>getNextVersion\<close> (the recorded
  version without tags, the selected tag without \<open>name-\<close> with tags) is a semantic version
  and the release type of the commits is one of major, premajor, minor, preminor, patch,
  prepatch and prerelease, the returned next version is the string of the version that
  the increment of that type gives, a version that the current version precedes. The
  returned value is \<open>null\<close> exactly when the current version is no semantic version or the
  release type is none that \<open>semver.inc\<close> knows.
\<close>

theorem getNextVersion_increment:
  assumes "fst (referenceOf w tags workspace) = Inr (ref, currentVersion)"
    and "fst (analyzeCommitsSinceRef w ref (folderNameOf w workspace)) = Inr releaseType"
  shows "\<exists>nextVersion. fst (getNextVersion w tags workspace) = Inr (getName workspace, nextVersion)
      \<and> (\<forall>v r. parseSemVer currentVersion = Some v \<and> releaseType = Some r
              \<and> r \<in> set releaseTypes
            \<longrightarrow> (\<exists>v'. inc v r = Some v' \<and> nextVersion = Some (format v') \<and> precedes v v'))
      \<and> (nextVersion = None \<longleftrightarrow>
            parseSemVer currentVersion = None
            \<or> releaseType \<notin> Some ` set (''pre'' # releaseTypes))"
proof -
  let ?n = "semver_inc currentVersion releaseType"
  have a: "fst (getNextVersion w tags workspace) = Inr (getName workspace, ?n)"
    using assms by (simp add: getNextVersion_def fst_bind_io fst_return_io)
  have b: "\<forall>v r. parseSemVer currentVersion = Some v \<and> releaseType = Some r
        \<and> r \<in> set releaseTypes
      \<longrightarrow> (\<exists>v'. inc v r = Some v' \<and> ?n = Some (format v') \<and> precedes v v')"
  proof (intro allI impI)
    fix v r
    assume h: "parseSemVer currentVersion = Some v \<and> releaseType = Some r \<and> r \<in> set releaseTypes"
    then have "inc v r \<noteq> None" using inc_defined [of v r] by simp
    then obtain v' where v': "inc v r = Some v'" by blast
    with h have "precedes v v'" by (intro inc_precedes [of r v v']) simp_all
    with h v' show "\<exists>v'. inc v r = Some v' \<and> ?n = Some (format v') \<and> precedes v v'"
      by (simp add: semver_inc_def)
  qed
  have c: "?n = None \<longleftrightarrow>
      parseSemVer currentVersion = None \<or> releaseType \<notin> Some ` set (''pre'' # releaseTypes)"
    by (rule semver_inc_None)
  show ?thesis
    by (rule exI [of _ ?n]) (intro conjI a b c)
qed

text \<open>
  The claim as stated fails: the package \<open>d\<close> has no tag and the recorded version \<open>1.0\<close>,
  which is the current version, and the returned next version is \<open>null\<close>.
\<close>

theorem getNextVersion_increment_counterexample:
  "fst (referenceOf (exampleWorld draftScript [pkgD] (Some ''minor'')) [] pkgD)
     = Inr (''5555555'', ''1.0'')
   \<and> fst (getNextVersion (exampleWorld draftScript [pkgD] (Some ''minor'')) [] pkgD)
     = Inr (''d'', None)"
  by (simp add: getNextVersion_def referenceOf_def folderNameOf_def path_sep_def
      getFirstCommitByWorkspaceFolder_def draftScript_def pkgD_def example_defs semver_defs)

lemma parse_140: "parseSemVer ''1.4.0'' = Some \<lparr>major = 1, minor = 4, patch = 0, prerelease = []\<rparr>"
  by (simp add: semver_defs)

theorem getNextVersion_increment_witness:
  "fst (getNextVersion (exampleWorld releaseScript [pkgA] (Some ''minor''))
      [''a-1.5.0'', ''a-1.4.0''] pkgA) = Inr (''a'', Some ''1.5.0'')
   \<and> precedes \<lparr>major = 1, minor = 4, patch = 0, prerelease = []\<rparr>
        \<lparr>major = 1, minor = 5, patch = 0, prerelease = []\<rparr>"
proof -
  let ?w = "exampleWorld releaseScript [pkgA] (Some ''minor'')"
  let ?v = "\<lparr>major = 1, minor = 4, patch = 0, prerelease = []\<rparr>"
  have ref: "fst (referenceOf ?w [''a-1.5.0'', ''a-1.4.0''] pkgA) = Inr (''a-1.4.0'', ''1.4.0'')"
    by (simp add: referenceOf_def pLocate_def isRefInHistory_def example_defs)
  have label: "fst (analyzeCommitsSinceRef ?w ''a-1.4.0'' (folderNameOf ?w pkgA)) = Inr (Some ''minor'')"
    by (simp add: exampleWorld_def)
  have step: "inc ?v ''minor'' = Some \<lparr>major = 1, minor = 5, patch = 0, prerelease = []\<rparr>"
    by (simp add: inc_minor)
  have shown: "format \<lparr>major = 1, minor = 5, patch = 0, prerelease = []\<rparr> = ''1.5.0''"
    by (simp add: format_def)
  from getNextVersion_increment [OF ref label] obtain nextVersion
    where r: "fst (getNextVersion ?w [''a-1.5.0'', ''a-1.4.0''] pkgA) = Inr (getName pkgA, nextVersion)"
      and i: "\<forall>v r. parseSemVer ''1.4.0'' = Some v \<and> Some ''minor'' = Some r \<and> r \<in> set releaseTypes
            \<longrightarrow> (\<exists>v'. inc v r = Some v' \<and> nextVersion = Some (format v') \<and> precedes v v')"
    by blast
  have "''minor'' \<in> set releaseTypes" by (simp add: releaseTypes_def)
  with i parse_140 have "\<exists>v'. inc ?v ''minor'' = Some v' \<and> nextVersion = Some (format v') \<and> precedes ?v v'"
    by blast
  with step shown have "nextVersion = Some ''1.5.0''
      \<and> precedes ?v \<lparr>major = 1, minor = 5, patch = 0, prerelease = []\<rparr>"
    by auto
  with r show ?thesis by (simp add: pkgA_def)
qed

text \<open>
  The value \<open>null\<close> also comes up through \<open>getNextVersionsByWorkspaces\<close>: the tags of the
  package \<open>ui-kit\<close> start with \<open>ui\<close>, so they are among the tags of the package \<open>ui\<close>, and
  \<open>ui-kit-1.0.0\<close> is sorted before \<open>ui-1.0.0\<close>. The current version of \<open>ui\<close> is then
  \<open>kit-1.0.0\<close>.
\<close>

lemma prefix_collision_example:
  "fst (getNextVersionsByWorkspaces (exampleWorld collisionScript [pkgUi, pkgUiKit] (Some ''minor''))
      [pkgUi, pkgUiKit])
     = Inr [(''ui'', None), (''ui-kit'', Some ''1.1.0'')]"
  by (simp add: getNextVersionsByWorkspaces_def promise_all_def getTags_def getNextVersion_def
      referenceOf_def folderNameOf_def path_sep_def pLocate_def isRefInHistory_def
      collisionScript_def pkgUi_def pkgUiKit_def example_defs semver_defs)

end
